theory Spec2Isabelle
  imports Complex_Main "HOL-Library.Sublist"
begin

section \<open>JavaScript strings\<close>

text \<open>
  Text is a \<^typ>\<open>string\<close>: the UTF-8 bytes of the decoded text. The decoder
  (\<^verbatim>\<open>TextDecoder\<close> in streaming mode) is not modelled: a network read is the text
  it decoded, and the concatenation of the reads is the decoded body.

  \<^verbatim>\<open>String.prototype.trim\<close> and the regular expression class \<^verbatim>\<open>\s\<close> use the same
  set: the code points WhiteSpace and LineTerminator of ECMAScript, listed here in UTF-8.
\<close>

definition white_space :: "string list" where
  "white_space =
    [[CHR 0x09], [CHR 0x0A], [CHR 0x0B], [CHR 0x0C], [CHR 0x0D], [CHR 0x20],
     [CHR 0xC2, CHR 0xA0],
     [CHR 0xE1, CHR 0x9A, CHR 0x80],
     [CHR 0xE2, CHR 0x80, CHR 0x80], [CHR 0xE2, CHR 0x80, CHR 0x81],
     [CHR 0xE2, CHR 0x80, CHR 0x82], [CHR 0xE2, CHR 0x80, CHR 0x83],
     [CHR 0xE2, CHR 0x80, CHR 0x84], [CHR 0xE2, CHR 0x80, CHR 0x85],
     [CHR 0xE2, CHR 0x80, CHR 0x86], [CHR 0xE2, CHR 0x80, CHR 0x87],
     [CHR 0xE2, CHR 0x80, CHR 0x88], [CHR 0xE2, CHR 0x80, CHR 0x89],
     [CHR 0xE2, CHR 0x80, CHR 0x8A],
     [CHR 0xE2, CHR 0x80, CHR 0xA8], [CHR 0xE2, CHR 0x80, CHR 0xA9],
     [CHR 0xE2, CHR 0x80, CHR 0xAF],
     [CHR 0xE2, CHR 0x81, CHR 0x9F],
     [CHR 0xE3, CHR 0x80, CHR 0x80],
     [CHR 0xEF, CHR 0xBB, CHR 0xBF]]"

definition startsWith :: "string \<Rightarrow> string \<Rightarrow> bool" where
  "startsWith s p = (take (length p) s = p)"

definition endsWith :: "string \<Rightarrow> string \<Rightarrow> bool" where
  "endsWith s p = (length p \<le> length s \<and> drop (length s - length p) s = p)"

text \<open>The number of bytes of the white space code point at the head (the end) of a text, 0 when there is none.\<close>

definition ws_head :: "string \<Rightarrow> nat" where
  "ws_head s = (case find (startsWith s) white_space of None \<Rightarrow> 0 | Some w \<Rightarrow> length w)"

definition ws_last :: "string \<Rightarrow> nat" where
  "ws_last s = (case find (endsWith s) white_space of None \<Rightarrow> 0 | Some w \<Rightarrow> length w)"

lemma ws_head_le: "ws_head s \<le> length s"
proof (cases "find (startsWith s) white_space")
  case None
  then show ?thesis by (simp add: ws_head_def)
next
  case (Some w)
  then have "take (length w) s = w"
    by (auto simp: find_Some_iff startsWith_def)
  then have "length w \<le> length s"
    by (metis length_take min.cobounded1)
  with Some show ?thesis by (simp add: ws_head_def)
qed

lemma ws_head_pos: "0 < ws_head s \<Longrightarrow> length s - ws_head s < length s"
  using ws_head_le [of s] by auto

lemma ws_last_le: "ws_last s \<le> length s"
  by (auto simp: ws_last_def endsWith_def find_Some_iff split: option.splits)

lemma ws_last_pos: "0 < ws_last s \<Longrightarrow> length s - ws_last s < length s"
  using ws_last_le [of s] by auto

function trimStart :: "string \<Rightarrow> string" where
  "trimStart s = (if ws_head s = 0 then s else trimStart (drop (ws_head s) s))"
  by pat_completeness auto
termination
  by (relation "measure length") (auto intro: ws_head_pos)

function trimEnd :: "string \<Rightarrow> string" where
  "trimEnd s = (if ws_last s = 0 then s else trimEnd (take (length s - ws_last s) s))"
  by pat_completeness auto
termination
  by (relation "measure length") (auto intro: ws_last_pos)

declare trimStart.simps [simp del] trimEnd.simps [simp del]

definition trim :: "string \<Rightarrow> string" where
  "trim s = trimEnd (trimStart s)"

text \<open>
  \<^verbatim>\<open>s.split('\n')\<close>: the pieces between line feeds, never an empty array. The decode loops
  keep the last piece as the carry-over buffer (\<^verbatim>\<open>lines.pop()\<close>) and process the others.
\<close>

fun split_nl :: "string \<Rightarrow> string list" where
  "split_nl [] = [[]]"
| "split_nl (c # cs) =
     (if c = CHR 0x0A then [] # split_nl cs
      else (case split_nl cs of [] \<Rightarrow> [[c]] | l # ls \<Rightarrow> (c # l) # ls))"

text \<open>\<^verbatim>\<open>Boolean(s)\<close> for a string that may be null or undefined.\<close>

fun Boolean :: "string option \<Rightarrow> bool" where
  "Boolean None = False"
| "Boolean (Some s) = (s \<noteq> [])"

text \<open>Decimal rendering of a number in a template literal (an HTTP status).\<close>

definition digit :: "nat \<Rightarrow> char" where
  "digit d = char_of (48 + d)"

function show_nat :: "nat \<Rightarrow> string" where
  "show_nat n = (if n < 10 then [digit n] else show_nat (n div 10) @ [digit (n mod 10)])"
  by pat_completeness auto
termination
  by (relation "measure id") auto

declare show_nat.simps [simp del]

section \<open>JSON values and property access\<close>

text \<open>
  A value produced by \<^verbatim>\<open>JSON.parse\<close>. A number is kept as the text that
  \<^verbatim>\<open>String(n)\<close> renders it with, which decides all the code observes of a number: its
  truthiness (every number but 0 is truthy; \<^verbatim>\<open>JSON.parse\<close> yields no NaN) and its
  conversion to a string. \<^verbatim>\<open>undefined\<close> is \<^const>\<open>None\<close> of an option type.
\<close>

datatype json =
    JNull
  | JBool bool
  | JNum string
  | JStr string
  | JArr "json list"
  | JObj "(string \<times> json) list"

type_synonym jsval = "json option"

text \<open>Own properties: \<^verbatim>\<open>JSON.parse\<close> keeps the last of several equal keys.\<close>

fun get_prop :: "string \<Rightarrow> json \<Rightarrow> jsval" where
  "get_prop k (JObj kvs) = map_of (rev kvs) k"
| "get_prop k _ = None"

text \<open>The number of bytes of the first code point of a non-empty text.\<close>

definition cp_len :: "string \<Rightarrow> nat" where
  "cp_len s =
     (case s of [] \<Rightarrow> 0
      | c # _ \<Rightarrow>
          if of_char c < (0x80::nat) then 1
          else if of_char c < (0xE0::nat) then 2
          else if of_char c < (0xF0::nat) then 3
          else 4)"

text \<open>
  \<^verbatim>\<open>v[0]\<close> on a value that is neither null nor undefined: the first element of an array,
  the property \<^verbatim>\<open>"0"\<close> of an object, the first character of a string (for a code point
  outside the Basic Multilingual Plane the runtime gives its first UTF-16 half, which
  UTF-8 text cannot hold; the whole code point stands for it, and no property read from
  it can tell the two apart: each is \<^verbatim>\<open>undefined\<close>).
\<close>

fun index0 :: "json \<Rightarrow> jsval" where
  "index0 (JArr xs) = (case xs of [] \<Rightarrow> None | x # _ \<Rightarrow> Some x)"
| "index0 (JObj kvs) = map_of (rev kvs) ''0''"
| "index0 (JStr s) = (if s = [] then None else Some (JStr (take (cp_len s) s)))"
| "index0 _ = None"

text \<open>Optional chaining, \<^verbatim>\<open>v?.k\<close> and \<^verbatim>\<open>v?.[0]\<close>: undefined on null and undefined.\<close>

fun opt_prop :: "string \<Rightarrow> jsval \<Rightarrow> jsval" where
  "opt_prop k None = None"
| "opt_prop k (Some JNull) = None"
| "opt_prop k (Some v) = get_prop k v"

fun opt_index0 :: "jsval \<Rightarrow> jsval" where
  "opt_index0 None = None"
| "opt_index0 (Some JNull) = None"
| "opt_index0 (Some v) = index0 v"

text \<open>
  Plain member access \<^verbatim>\<open>v.k\<close>: a TypeError on null and undefined. The message is the one
  of V8, the engine of the Deno runtime the proxy runs on.
\<close>

definition type_error :: "string \<Rightarrow> string \<Rightarrow> string" where
  "type_error what k = ''Cannot read properties of '' @ what @ '' (reading '' @ [CHR 0x27] @ k @ [CHR 0x27] @ '')''"

fun dot :: "string \<Rightarrow> jsval \<Rightarrow> string + jsval" where
  "dot k None = Inl (type_error ''undefined'' k)"
| "dot k (Some JNull) = Inl (type_error ''null'' k)"
| "dot k (Some v) = Inr (get_prop k v)"

fun truthy :: "jsval \<Rightarrow> bool" where
  "truthy None = False"
| "truthy (Some JNull) = False"
| "truthy (Some (JBool b)) = b"
| "truthy (Some (JNum t)) = (t \<noteq> ''0'')"
| "truthy (Some (JStr s)) = (s \<noteq> [])"
| "truthy (Some (JArr _)) = True"
| "truthy (Some (JObj _)) = True"

text \<open>\<^verbatim>\<open>String(v)\<close>, as \<^verbatim>\<open>new Error(v)\<close> and string concatenation apply it.\<close>

fun intercalate :: "string \<Rightarrow> string list \<Rightarrow> string" where
  "intercalate sep [] = []"
| "intercalate sep [x] = x"
| "intercalate sep (x # y # ys) = x @ sep @ intercalate sep (y # ys)"

fun toString :: "json \<Rightarrow> string" where
  "toString JNull = ''null''"
| "toString (JBool b) = (if b then ''true'' else ''false'')"
| "toString (JNum t) = t"
| "toString (JStr s) = s"
| "toString (JArr xs) = intercalate '','' (map (\<lambda>x. if x = JNull then [] else toString x) xs)"
| "toString (JObj _) = ''[object Object]''"

section \<open>JSON.parse\<close>

text \<open>
  \<^verbatim>\<open>JSON.parse\<close> is the runtime's, not the repository's. It is modelled as a recursive
  descent parser of the JSON grammar; \<^const>\<open>None\<close> stands for the SyntaxError it throws.
  The recursion takes fuel, and the length of the text is enough of it: a parse that succeeds
  with any amount of fuel succeeds with that much, so that \<^const>\<open>None\<close> is never a lack of fuel.

  The text kept for a number is its literal, with \<^verbatim>\<open>-0\<close> and literals whose digits are
  all zero rendered \<^verbatim>\<open>0\<close>. For an integer literal of at most 15 digits this is what
  \<^verbatim>\<open>String(n)\<close> gives; for other literals the runtime's rendering of the nearest double
  can differ (\<^verbatim>\<open>1.0\<close> renders as \<^verbatim>\<open>1\<close>). An escape \<^verbatim>\<open>\uXXXX\<close> of half a surrogate pair
  is encoded like any other code point.
\<close>

definition is_json_ws :: "char \<Rightarrow> bool" where
  "is_json_ws c = (c = CHR 0x20 \<or> c = CHR 0x09 \<or> c = CHR 0x0A \<or> c = CHR 0x0D)"

definition skip_ws :: "string \<Rightarrow> string" where
  "skip_ws s = dropWhile is_json_ws s"

definition is_digit :: "char \<Rightarrow> bool" where
  "is_digit c = (48 \<le> (of_char c :: nat) \<and> (of_char c :: nat) \<le> 57)"

definition hex_val :: "char \<Rightarrow> nat option" where
  "hex_val c =
     (let n = (of_char c :: nat) in
      if 48 \<le> n \<and> n \<le> 57 then Some (n - 48)
      else if 65 \<le> n \<and> n \<le> 70 then Some (n - 55)
      else if 97 \<le> n \<and> n \<le> 102 then Some (n - 87)
      else None)"

fun hex4 :: "string \<Rightarrow> nat option" where
  "hex4 (a # b # c # d # _) =
     (case (hex_val a, hex_val b, hex_val c, hex_val d) of
        (Some w, Some x, Some y, Some z) \<Rightarrow> Some (((w * 16 + x) * 16 + y) * 16 + z)
      | _ \<Rightarrow> None)"
| "hex4 _ = None"

definition utf8 :: "nat \<Rightarrow> string" where
  "utf8 n =
     (if n < 0x80 then [char_of n]
      else if n < 0x800 then [char_of (0xC0 + n div 0x40), char_of (0x80 + n mod 0x40)]
      else if n < 0x10000 then
        [char_of (0xE0 + n div 0x1000), char_of (0x80 + n div 0x40 mod 0x40),
         char_of (0x80 + n mod 0x40)]
      else
        [char_of (0xF0 + n div 0x40000), char_of (0x80 + n div 0x1000 mod 0x40),
         char_of (0x80 + n div 0x40 mod 0x40), char_of (0x80 + n mod 0x40)])"

definition unescape :: "char \<Rightarrow> char option" where
  "unescape e =
     (if e = CHR 0x22 \<or> e = CHR 0x5C \<or> e = CHR ''/'' then Some e
      else if e = CHR ''b'' then Some (CHR 0x08)
      else if e = CHR ''f'' then Some (CHR 0x0C)
      else if e = CHR ''n'' then Some (CHR 0x0A)
      else if e = CHR ''r'' then Some (CHR 0x0D)
      else if e = CHR ''t'' then Some (CHR 0x09)
      else None)"

text \<open>
  The code point of a \<^verbatim>\<open>\u\<close> escape whose four digits are \<open>hi\<close>, and the text after it:
  a high surrogate directly followed by the escape of a low one is the pair's code point.
\<close>

definition code_point :: "nat \<Rightarrow> string \<Rightarrow> nat \<times> string" where
  "code_point hi r =
     (if 0xD800 \<le> hi \<and> hi < 0xDC00 \<and> startsWith r [CHR 0x5C, CHR ''u''] then
        (case hex4 (drop 2 r) of
           Some lo \<Rightarrow>
             if 0xDC00 \<le> lo \<and> lo < 0xE000
             then (0x10000 + (hi - 0xD800) * 0x400 + (lo - 0xDC00), drop 6 r)
             else (hi, r)
         | None \<Rightarrow> (hi, r))
      else (hi, r))"

lemma code_point_length: "length (snd (code_point hi r)) \<le> length r"
  by (auto simp: code_point_def split: option.splits)

text \<open>The characters of a string literal after its opening quote, and the text after its closing quote.\<close>

function parse_chars :: "string \<Rightarrow> (string \<times> string) option" where
  "parse_chars [] = None"
| "parse_chars (c # cs) =
     (if c = CHR 0x22 then Some ([], cs)
      else if c = CHR 0x5C then
        (case cs of
           [] \<Rightarrow> None
         | e # r \<Rightarrow>
             if e = CHR ''u'' then
               (case hex4 r of
                  None \<Rightarrow> None
                | Some hi \<Rightarrow>
                    (case parse_chars (snd (code_point hi (drop 4 r))) of
                       None \<Rightarrow> None
                     | Some (t, rest) \<Rightarrow> Some (utf8 (fst (code_point hi (drop 4 r))) @ t, rest)))
             else
               (case unescape e of
                  None \<Rightarrow> None
                | Some ch \<Rightarrow>
                    (case parse_chars r of
                       None \<Rightarrow> None
                     | Some (t, rest) \<Rightarrow> Some (ch # t, rest))))
      else if (of_char c :: nat) < 0x20 then None
      else
        (case parse_chars cs of
           None \<Rightarrow> None
         | Some (t, rest) \<Rightarrow> Some (c # t, rest)))"
  by pat_completeness auto
termination
proof (relation "measure length", goal_cases)
  case 1
  show ?case by simp
next
  case (2 c cs e r hi)
  have "length (snd (code_point hi (drop 4 r))) \<le> length (drop 4 r)"
    by (rule code_point_length)
  with 2 show ?case by simp
next
  case 3
  then show ?case by simp
next
  case 4
  then show ?case by simp
qed

text \<open>A number literal at the head of a text: its rendering and the text after it.\<close>

definition scan_number :: "string \<Rightarrow> (string \<times> string) option" where
  "scan_number s =
     (let sign = (if startsWith s ''-'' then ''-'' else []);
          r0 = drop (length sign) s;
          ip = takeWhile is_digit r0;
          r1 = dropWhile is_digit r0;
          fd = (if startsWith r1 ''.'' then takeWhile is_digit (tl r1) else []);
          r2 = (if startsWith r1 ''.'' then dropWhile is_digit (tl r1) else r1);
          has_exp = (startsWith r2 ''e'' \<or> startsWith r2 ''E'');
          r3 = (if has_exp then tl r2 else r2);
          es = (if has_exp \<and> (startsWith r3 ''+'' \<or> startsWith r3 ''-'') then take 1 r3 else []);
          r4 = drop (length es) r3;
          ed = (if has_exp then takeWhile is_digit r4 else []);
          r5 = (if has_exp then dropWhile is_digit r4 else r2)
      in if ip = [] \<or> (1 < length ip \<and> hd ip = CHR ''0'') then None
         else if startsWith r1 ''.'' \<and> fd = [] then None
         else if has_exp \<and> ed = [] then None
         else if \<forall>c \<in> set (ip @ fd). c = CHR ''0'' then Some (''0'', r5)
         else Some (take (length s - length r5) s, r5))"

fun parse_value :: "nat \<Rightarrow> string \<Rightarrow> (json \<times> string) option"
  and parse_elems :: "nat \<Rightarrow> string \<Rightarrow> (json list \<times> string) option"
  and parse_members :: "nat \<Rightarrow> string \<Rightarrow> ((string \<times> json) list \<times> string) option"
where
  "parse_value 0 s = None"
| "parse_value (Suc n) s =
     (if startsWith s ''{'' then
        (if startsWith (skip_ws (tl s)) ''}'' then Some (JObj [], tl (skip_ws (tl s)))
         else map_option (\<lambda>(kvs, r). (JObj kvs, r)) (parse_members n (tl s)))
      else if startsWith s ''['' then
        (if startsWith (skip_ws (tl s)) '']'' then Some (JArr [], tl (skip_ws (tl s)))
         else map_option (\<lambda>(vs, r). (JArr vs, r)) (parse_elems n (tl s)))
      else if startsWith s [CHR 0x22] then
        map_option (\<lambda>(t, r). (JStr t, r)) (parse_chars (tl s))
      else if startsWith s ''true'' then Some (JBool True, drop 4 s)
      else if startsWith s ''false'' then Some (JBool False, drop 5 s)
      else if startsWith s ''null'' then Some (JNull, drop 4 s)
      else map_option (\<lambda>(t, r). (JNum t, r)) (scan_number s))"
| "parse_elems 0 s = None"
| "parse_elems (Suc n) s =
     (case parse_value n (skip_ws s) of
        None \<Rightarrow> None
      | Some (v, r) \<Rightarrow>
          if startsWith (skip_ws r) '','' then
            map_option (\<lambda>(vs, r'). (v # vs, r')) (parse_elems n (tl (skip_ws r)))
          else if startsWith (skip_ws r) '']'' then Some ([v], tl (skip_ws r))
          else None)"
| "parse_members 0 s = None"
| "parse_members (Suc n) s =
     (if \<not> startsWith (skip_ws s) [CHR 0x22] then None
      else
        (case parse_chars (tl (skip_ws s)) of
           None \<Rightarrow> None
         | Some (k, r) \<Rightarrow>
             if \<not> startsWith (skip_ws r) '':'' then None
             else
               (case parse_value n (skip_ws (tl (skip_ws r))) of
                  None \<Rightarrow> None
                | Some (v, r') \<Rightarrow>
                    if startsWith (skip_ws r') '','' then
                      map_option (\<lambda>(kvs, r''). ((k, v) # kvs, r'')) (parse_members n (tl (skip_ws r')))
                    else if startsWith (skip_ws r') ''}'' then Some ([(k, v)], tl (skip_ws r'))
                    else None)))"

definition JSON_parse :: "string \<Rightarrow> json option" where
  "JSON_parse s =
     (case parse_value (Suc (length s)) (skip_ws s) of
        None \<Rightarrow> None
      | Some (v, r) \<Rightarrow> if skip_ws r = [] then Some v else None)"

subsection \<open>The parser never runs out of fuel\<close>

text \<open>
  Every successful parse consumes at least one character, and succeeds again, with the same
  result, on any fuel that is at least the number of characters it consumed.
\<close>

lemma skip_ws_length: "length (skip_ws s) \<le> length s"
  by (simp add: skip_ws_def length_dropWhile_le)

lemma startsWith_single: "startsWith s [c] \<Longrightarrow> Suc (length (tl s)) = length s"
  by (cases s) (simp_all add: startsWith_def)

lemma parse_chars_length: "parse_chars s = Some (t, r) \<Longrightarrow> length r < length s"
proof (induction s arbitrary: t r rule: parse_chars.induct)
  case 1
  then show ?case by simp
next
  case (2 c cs)
  show ?case
  proof (cases "c = CHR 0x22")
    case True
    with 2 show ?thesis by auto
  next
    case nq: False
    show ?thesis
    proof (cases "c = CHR 0x5C")
      case True
      show ?thesis
      proof (cases cs)
        case Nil
        with 2(4) nq True show ?thesis by simp
      next
        case (Cons e r0)
        show ?thesis
        proof (cases "e = CHR ''u''")
          case u: True
          from 2(4) nq True Cons u obtain hi t' where
            hi: "hex4 r0 = Some hi" and
            p: "parse_chars (snd (code_point hi (drop 4 r0))) = Some (t', r)"
            by (auto split: option.splits)
          from 2(1) [OF nq True Cons u hi p]
          have "length r < length (snd (code_point hi (drop 4 r0)))" .
          also have "\<dots> \<le> length (drop 4 r0)" by (rule code_point_length)
          finally show ?thesis using Cons by simp
        next
          case nu: False
          from 2(4) nq True Cons nu obtain ch t' where
            ch: "unescape e = Some ch" and p: "parse_chars r0 = Some (t', r)"
            by (auto split: option.splits)
          from 2(2) [OF nq True Cons nu ch p] show ?thesis using Cons by simp
        qed
      qed
    next
      case nb: False
      from 2(4) nq nb have ok: "\<not> (of_char c :: nat) < 0x20"
        by (auto split: if_splits)
      from 2(4) nq nb ok obtain t' where p: "parse_chars cs = Some (t', r)"
        by (auto split: option.splits)
      from 2(3) [OF nq nb ok p] show ?thesis by simp
    qed
  qed
qed

lemma dropWhile_shorter: "takeWhile P xs \<noteq> [] \<Longrightarrow> length (dropWhile P xs) < length xs"
  by (cases xs) (auto simp: less_Suc_eq_le length_dropWhile_le split: if_splits)

lemma scan_number_cases:
  "(if A then None else if B then None else if C then None
    else if D then Some (x, q) else Some (y, q)) = Some (t, r) \<Longrightarrow> \<not> A \<and> r = q"
  by (simp split: if_splits)

lemma scan_number_length:
  assumes "scan_number s = Some (t, r)"
  shows "length r < length s"
proof -
  define sign where "sign = (if startsWith s ''-'' then ''-'' else [])"
  define r0 where "r0 = drop (length sign) s"
  define r1 where "r1 = dropWhile is_digit r0"
  define r2 where "r2 = (if startsWith r1 ''.'' then dropWhile is_digit (tl r1) else r1)"
  define has_exp where "has_exp = (startsWith r2 ''e'' \<or> startsWith r2 ''E'')"
  define r3 where "r3 = (if has_exp then tl r2 else r2)"
  define es where
    "es = (if has_exp \<and> (startsWith r3 ''+'' \<or> startsWith r3 ''-'') then take 1 r3 else [])"
  define r4 where "r4 = drop (length es) r3"
  define r5 where "r5 = (if has_exp then dropWhile is_digit r4 else r2)"
  from assms
  have "\<not> (takeWhile is_digit r0 = [] \<or>
          (1 < length (takeWhile is_digit r0) \<and> hd (takeWhile is_digit r0) = CHR ''0'')) \<and>
        r = r5"
    unfolding scan_number_def Let_def sign_def r0_def r1_def r2_def has_exp_def r3_def es_def
      r4_def r5_def
    by (rule scan_number_cases)
  then have ip: "takeWhile is_digit r0 \<noteq> []" and r: "r = r5"
    by blast+
  have "length r5 \<le> length r2"
  proof (cases has_exp)
    case True
    have "length (dropWhile is_digit r4) \<le> length r4" by (rule length_dropWhile_le)
    also have "\<dots> \<le> length r3" by (simp add: r4_def)
    also have "\<dots> \<le> length r2" by (simp add: r3_def)
    finally show ?thesis using True by (simp add: r5_def)
  next
    case False
    then show ?thesis by (simp add: r5_def)
  qed
  also have "\<dots> \<le> length r1"
  proof (cases "startsWith r1 ''.''")
    case True
    have "length (dropWhile is_digit (tl r1)) \<le> length (tl r1)" by (rule length_dropWhile_le)
    also have "\<dots> \<le> length r1" by simp
    finally show ?thesis using True by (simp add: r2_def)
  next
    case False
    then show ?thesis by (simp add: r2_def)
  qed
  also have "\<dots> < length r0" unfolding r1_def using ip by (rule dropWhile_shorter)
  also have "\<dots> \<le> length s" by (simp add: r0_def)
  finally show ?thesis using r by simp
qed

lemma tl_skip_ws_length: "startsWith (skip_ws s) [c] \<Longrightarrow> length (tl (skip_ws s)) < length s"
  using startsWith_single [of "skip_ws s" c] skip_ws_length [of s] by simp

lemma parse_value_step:
  assumes E: "\<And>s x r. parse_elems m s = Some (x, r) \<Longrightarrow>
      length r < length s \<and> (\<forall>n. length s - length r \<le> n \<longrightarrow> parse_elems n s = Some (x, r))"
    and M: "\<And>s x r. parse_members m s = Some (x, r) \<Longrightarrow>
      length r < length s \<and> (\<forall>n. length s - length r \<le> n \<longrightarrow> parse_members n s = Some (x, r))"
    and p: "parse_value (Suc m) s = Some (v, r)"
  shows "length r < length s \<and> (\<forall>n. length s - length r \<le> n \<longrightarrow> parse_value n s = Some (v, r))"
proof -
  have scalar: "length r < length s \<and> (\<forall>n. length s - length r \<le> n \<longrightarrow> parse_value n s = Some (v, r))"
    if len: "length r < length s" and any: "\<And>k. parse_value (Suc k) s = Some (v, r)"
  proof (intro conjI allI impI)
    show "length r < length s" by (rule len)
  next
    fix n assume "length s - length r \<le> n"
    with len obtain k where "n = Suc k" by (cases n) auto
    then show "parse_value n s = Some (v, r)" by (simp only: any)
  qed
  consider (obj0) "startsWith s ''{''" "startsWith (skip_ws (tl s)) ''}''"
    | (obj) "startsWith s ''{''" "\<not> startsWith (skip_ws (tl s)) ''}''"
    | (arr0) "\<not> startsWith s ''{''" "startsWith s ''[''" "startsWith (skip_ws (tl s)) '']''"
    | (arr) "\<not> startsWith s ''{''" "startsWith s ''[''" "\<not> startsWith (skip_ws (tl s)) '']''"
    | (other) "\<not> startsWith s ''{''" "\<not> startsWith s ''[''"
    by blast
  then show ?thesis
  proof cases
    case obj0
    from p obj0 have r: "r = tl (skip_ws (tl s))" and v: "v = JObj []" by simp_all
    have "length r < length (tl s)" unfolding r using obj0(2) by (rule tl_skip_ws_length)
    then have "length r < length s" by simp
    then show ?thesis using obj0 by (intro scalar) (simp_all add: r v)
  next
    case arr0
    from p arr0 have r: "r = tl (skip_ws (tl s))" and v: "v = JArr []" by simp_all
    have "length r < length (tl s)" unfolding r using arr0(3) by (rule tl_skip_ws_length)
    then have "length r < length s" by simp
    then show ?thesis using arr0 by (intro scalar) (simp_all add: r v)
  next
    case obj
    from p obj obtain kvs where q: "parse_members m (tl s) = Some (kvs, r)" and v: "v = JObj kvs"
      by auto
    from M [OF q] have len: "length r < length (tl s)"
      and more: "\<And>n. length (tl s) - length r \<le> n \<Longrightarrow> parse_members n (tl s) = Some (kvs, r)"
      by blast+
    have s: "Suc (length (tl s)) = length s" using obj(1) by (rule startsWith_single)
    show ?thesis
    proof (intro conjI allI impI)
      show "length r < length s" using len s by linarith
    next
      fix n assume "length s - length r \<le> n"
      with len s obtain k where n: "n = Suc k" and k: "length (tl s) - length r \<le> k"
        by (cases n) auto
      from more [OF k] show "parse_value n s = Some (v, r)" using obj by (simp add: n v)
    qed
  next
    case arr
    from p arr obtain vs where q: "parse_elems m (tl s) = Some (vs, r)" and v: "v = JArr vs"
      by auto
    from E [OF q] have len: "length r < length (tl s)"
      and more: "\<And>n. length (tl s) - length r \<le> n \<Longrightarrow> parse_elems n (tl s) = Some (vs, r)"
      by blast+
    have s: "Suc (length (tl s)) = length s" using arr(2) by (rule startsWith_single)
    show ?thesis
    proof (intro conjI allI impI)
      show "length r < length s" using len s by linarith
    next
      fix n assume "length s - length r \<le> n"
      with len s obtain k where n: "n = Suc k" and k: "length (tl s) - length r \<le> k"
        by (cases n) auto
      from more [OF k] show "parse_value n s = Some (v, r)" using arr by (simp add: n v)
    qed
  next
    case other
    have any: "parse_value (Suc k) s = Some (v, r)" for k using p other by simp
    have "length r < length s"
    proof -
      consider (str) "startsWith s [CHR 0x22]"
        | (t) "\<not> startsWith s [CHR 0x22]" "startsWith s ''true''"
        | (f) "\<not> startsWith s [CHR 0x22]" "\<not> startsWith s ''true''" "startsWith s ''false''"
        | (n) "\<not> startsWith s [CHR 0x22]" "\<not> startsWith s ''true''" "\<not> startsWith s ''false''"
            "startsWith s ''null''"
        | (num) "\<not> startsWith s [CHR 0x22]" "\<not> startsWith s ''true''" "\<not> startsWith s ''false''"
            "\<not> startsWith s ''null''"
        by blast
      then show ?thesis
      proof cases
        case str
        from p other str obtain t where q: "parse_chars (tl s) = Some (t, r)" by auto
        from parse_chars_length [OF q] show ?thesis by simp
      next
        case t
        from t(2) have "s \<noteq> []" by (auto simp: startsWith_def)
        with p other t show ?thesis by auto
      next
        case f
        from f(3) have "s \<noteq> []" by (auto simp: startsWith_def)
        with p other f show ?thesis by auto
      next
        case n
        from n(4) have "s \<noteq> []" by (auto simp: startsWith_def)
        with p other n show ?thesis by auto
      next
        case num
        from p other num obtain t where q: "scan_number s = Some (t, r)" by auto
        from q show ?thesis by (rule scan_number_length)
      qed
    qed
    then show ?thesis by (rule scalar) (rule any)
  qed
qed

lemma parse_elems_step:
  assumes V: "\<And>s x r. parse_value m s = Some (x, r) \<Longrightarrow>
      length r < length s \<and> (\<forall>n. length s - length r \<le> n \<longrightarrow> parse_value n s = Some (x, r))"
    and E: "\<And>s x r. parse_elems m s = Some (x, r) \<Longrightarrow>
      length r < length s \<and> (\<forall>n. length s - length r \<le> n \<longrightarrow> parse_elems n s = Some (x, r))"
    and p: "parse_elems (Suc m) s = Some (vs, r)"
  shows "length r < length s \<and> (\<forall>n. length s - length r \<le> n \<longrightarrow> parse_elems n s = Some (vs, r))"
proof -
  from p obtain v r1 where q: "parse_value m (skip_ws s) = Some (v, r1)"
    by (auto split: option.splits)
  from V [OF q] have len1: "length r1 < length (skip_ws s)"
    and more1: "\<And>n. length (skip_ws s) - length r1 \<le> n \<Longrightarrow> parse_value n (skip_ws s) = Some (v, r1)"
    by blast+
  have s: "length (skip_ws s) \<le> length s" by (rule skip_ws_length)
  show ?thesis
  proof (cases "startsWith (skip_ws r1) '',''")
    case True
    from p q True obtain vs' where q': "parse_elems m (tl (skip_ws r1)) = Some (vs', r)"
      and vs: "vs = v # vs'"
      by auto
    from E [OF q'] have len2: "length r < length (tl (skip_ws r1))"
      and more2: "\<And>n. length (tl (skip_ws r1)) - length r \<le> n \<Longrightarrow>
        parse_elems n (tl (skip_ws r1)) = Some (vs', r)"
      by blast+
    have t: "length (tl (skip_ws r1)) < length r1" using True by (rule tl_skip_ws_length)
    show ?thesis
    proof (intro conjI allI impI)
      show "length r < length s" using len1 len2 s t by linarith
    next
      fix n assume "length s - length r \<le> n"
      with len1 len2 s t obtain k where n: "n = Suc k"
        and k1: "length (skip_ws s) - length r1 \<le> k"
        and k2: "length (tl (skip_ws r1)) - length r \<le> k"
        by (cases n) auto
      show "parse_elems n s = Some (vs, r)"
        using more1 [OF k1] more2 [OF k2] True by (simp add: n vs)
    qed
  next
    case False
    from p q False have close: "startsWith (skip_ws r1) '']''"
      and r: "r = tl (skip_ws r1)" and vs: "vs = [v]"
      by (auto split: if_splits)
    have t: "length (tl (skip_ws r1)) < length r1" using close by (rule tl_skip_ws_length)
    show ?thesis
    proof (intro conjI allI impI)
      show "length r < length s" unfolding r using len1 s t by linarith
    next
      fix n assume "length s - length r \<le> n"
      with len1 s t r obtain k where n: "n = Suc k"
        and k1: "length (skip_ws s) - length r1 \<le> k"
        by (cases n) auto
      show "parse_elems n s = Some (vs, r)"
        using more1 [OF k1] False close by (simp add: n vs r)
    qed
  qed
qed

lemma parse_members_step:
  assumes V: "\<And>s x r. parse_value m s = Some (x, r) \<Longrightarrow>
      length r < length s \<and> (\<forall>n. length s - length r \<le> n \<longrightarrow> parse_value n s = Some (x, r))"
    and M: "\<And>s x r. parse_members m s = Some (x, r) \<Longrightarrow>
      length r < length s \<and> (\<forall>n. length s - length r \<le> n \<longrightarrow> parse_members n s = Some (x, r))"
    and p: "parse_members (Suc m) s = Some (kvs, r)"
  shows "length r < length s \<and> (\<forall>n. length s - length r \<le> n \<longrightarrow> parse_members n s = Some (kvs, r))"
proof -
  from p have quote: "startsWith (skip_ws s) [CHR 0x22]"
    by (auto split: if_splits)
  from p quote obtain k0 r0 where c: "parse_chars (tl (skip_ws s)) = Some (k0, r0)"
    by (auto split: option.splits)
  from p quote c have colon: "startsWith (skip_ws r0) '':''"
    by (auto split: if_splits)
  from p quote c colon obtain v r1 where
    q: "parse_value m (skip_ws (tl (skip_ws r0))) = Some (v, r1)"
    by (auto split: option.splits)
  from V [OF q] have len1: "length r1 < length (skip_ws (tl (skip_ws r0)))"
    and more1: "\<And>n. length (skip_ws (tl (skip_ws r0))) - length r1 \<le> n \<Longrightarrow>
      parse_value n (skip_ws (tl (skip_ws r0))) = Some (v, r1)"
    by blast+
  have a: "length (tl (skip_ws s)) < length s" using quote by (rule tl_skip_ws_length)
  have b: "length r0 < length (tl (skip_ws s))" using c by (rule parse_chars_length)
  have d: "length (tl (skip_ws r0)) < length r0" using colon by (rule tl_skip_ws_length)
  have e: "length (skip_ws (tl (skip_ws r0))) \<le> length (tl (skip_ws r0))" by (rule skip_ws_length)
  show ?thesis
  proof (cases "startsWith (skip_ws r1) '',''")
    case True
    from p quote c colon q True obtain kvs' where
      q': "parse_members m (tl (skip_ws r1)) = Some (kvs', r)" and kvs: "kvs = (k0, v) # kvs'"
      by auto
    from M [OF q'] have len2: "length r < length (tl (skip_ws r1))"
      and more2: "\<And>n. length (tl (skip_ws r1)) - length r \<le> n \<Longrightarrow>
        parse_members n (tl (skip_ws r1)) = Some (kvs', r)"
      by blast+
    have t: "length (tl (skip_ws r1)) < length r1" using True by (rule tl_skip_ws_length)
    show ?thesis
    proof (intro conjI allI impI)
      show "length r < length s" using len1 len2 a b d e t by linarith
    next
      fix n assume "length s - length r \<le> n"
      with len1 len2 a b d e t obtain k where n: "n = Suc k"
        and k1: "length (skip_ws (tl (skip_ws r0))) - length r1 \<le> k"
        and k2: "length (tl (skip_ws r1)) - length r \<le> k"
        by (cases n) auto
      show "parse_members n s = Some (kvs, r)"
        using more1 [OF k1] more2 [OF k2] quote c colon True by (simp add: n kvs)
    qed
  next
    case False
    from p quote c colon q False have close: "startsWith (skip_ws r1) ''}''"
      and r: "r = tl (skip_ws r1)" and kvs: "kvs = [(k0, v)]"
      by (auto split: if_splits)
    have t: "length (tl (skip_ws r1)) < length r1" using close by (rule tl_skip_ws_length)
    show ?thesis
    proof (intro conjI allI impI)
      show "length r < length s" unfolding r using len1 a b d e t by linarith
    next
      fix n assume "length s - length r \<le> n"
      with len1 a b d e t r obtain k where n: "n = Suc k"
        and k1: "length (skip_ws (tl (skip_ws r0))) - length r1 \<le> k"
        by (cases n) auto
      show "parse_members n s = Some (kvs, r)"
        using more1 [OF k1] quote c colon False close by (simp add: n kvs r)
    qed
  qed
qed

lemma enough_fuel:
  "(\<forall>s x r. parse_value m s = Some (x, r) \<longrightarrow>
      length r < length s \<and> (\<forall>n. length s - length r \<le> n \<longrightarrow> parse_value n s = Some (x, r))) \<and>
   (\<forall>s x r. parse_elems m s = Some (x, r) \<longrightarrow>
      length r < length s \<and> (\<forall>n. length s - length r \<le> n \<longrightarrow> parse_elems n s = Some (x, r))) \<and>
   (\<forall>s x r. parse_members m s = Some (x, r) \<longrightarrow>
      length r < length s \<and> (\<forall>n. length s - length r \<le> n \<longrightarrow> parse_members n s = Some (x, r)))"
proof (induction m)
  case 0
  show ?case by simp
next
  case (Suc m)
  then have V: "\<And>s x r. parse_value m s = Some (x, r) \<Longrightarrow>
      length r < length s \<and> (\<forall>n. length s - length r \<le> n \<longrightarrow> parse_value n s = Some (x, r))"
    and E: "\<And>s x r. parse_elems m s = Some (x, r) \<Longrightarrow>
      length r < length s \<and> (\<forall>n. length s - length r \<le> n \<longrightarrow> parse_elems n s = Some (x, r))"
    and M: "\<And>s x r. parse_members m s = Some (x, r) \<Longrightarrow>
      length r < length s \<and> (\<forall>n. length s - length r \<le> n \<longrightarrow> parse_members n s = Some (x, r))"
    by blast+
  show ?case
  proof (intro conjI allI impI)
    fix s x r assume "parse_value (Suc m) s = Some (x, r)"
    with E M have "length r < length s \<and>
        (\<forall>n. length s - length r \<le> n \<longrightarrow> parse_value n s = Some (x, r))"
      by (rule parse_value_step)
    then show "length r < length s"
      and "\<And>n. length s - length r \<le> n \<Longrightarrow> parse_value n s = Some (x, r)"
      by blast+
  next
    fix s x r assume "parse_elems (Suc m) s = Some (x, r)"
    with V E have "length r < length s \<and>
        (\<forall>n. length s - length r \<le> n \<longrightarrow> parse_elems n s = Some (x, r))"
      by (rule parse_elems_step)
    then show "length r < length s"
      and "\<And>n. length s - length r \<le> n \<Longrightarrow> parse_elems n s = Some (x, r)"
      by blast+
  next
    fix s x r assume "parse_members (Suc m) s = Some (x, r)"
    with V M have "length r < length s \<and>
        (\<forall>n. length s - length r \<le> n \<longrightarrow> parse_members n s = Some (x, r))"
      by (rule parse_members_step)
    then show "length r < length s"
      and "\<And>n. length s - length r \<le> n \<Longrightarrow> parse_members n s = Some (x, r)"
      by blast+
  qed
qed

text \<open>
  Hence \<^const>\<open>JSON_parse\<close> gives a value exactly when some amount of fuel parses the whole
  text.
\<close>

lemma JSON_parse_fuel:
  assumes "parse_value m (skip_ws s) = Some (v, r)"
  shows "parse_value (Suc (length s)) (skip_ws s) = Some (v, r)"
proof -
  from enough_fuel [of m] assms
  have "\<forall>n. length (skip_ws s) - length r \<le> n \<longrightarrow> parse_value n (skip_ws s) = Some (v, r)"
    by blast
  moreover have "length (skip_ws s) - length r \<le> Suc (length s)"
    using skip_ws_length [of s] by linarith
  ultimately show ?thesis by blast
qed

lemma JSON_parse_Some:
  "JSON_parse s = Some v \<longleftrightarrow> (\<exists>m r. parse_value m (skip_ws s) = Some (v, r) \<and> skip_ws r = [])"
proof
  assume "JSON_parse s = Some v"
  then obtain r where "parse_value (Suc (length s)) (skip_ws s) = Some (v, r)" and "skip_ws r = []"
    unfolding JSON_parse_def
    by (cases "parse_value (Suc (length s)) (skip_ws s)")
      (auto simp del: parse_value.simps split: if_splits)
  then show "\<exists>m r. parse_value m (skip_ws s) = Some (v, r) \<and> skip_ws r = []"
    by blast
next
  assume "\<exists>m r. parse_value m (skip_ws s) = Some (v, r) \<and> skip_ws r = []"
  then obtain m r where p: "parse_value m (skip_ws s) = Some (v, r)" and r: "skip_ws r = []"
    by blast
  from p have "parse_value (Suc (length s)) (skip_ws s) = Some (v, r)" by (rule JSON_parse_fuel)
  with r show "JSON_parse s = Some v" by (simp add: JSON_parse_def)
qed

section \<open>The SSE decode loop\<close>

text \<open>
  The three Wire Adapters of \<^verbatim>\<open>stream-ai/index.ts\<close> and \<^verbatim>\<open>realStream\<close> of
  \<^verbatim>\<open>aiService.ts\<close> run the same loop, written out four times in the source:
  \<^verbatim>\<open>
  let buf = '';
  while (true) {
    const { done, value } = await reader.read();
    if (done) break;
    buf += decoder.decode(value, { stream: true });
    const lines = buf.split('\n');
    buf = lines.pop() ?? '';
    for (const line of lines) {
      if (!line.startsWith('data: ')) continue;
      const payload = line.slice(6).trim();
      ... the adapter's handling of payload ...
    }
  }
  \<close>
  The handling of a payload either goes on with the next line, returns from the function,
  or throws; \<open>'s\<close> is the state it acts on (the stream controller of an adapter, the
  chunks yielded so far of the generator).
\<close>

datatype 's flow = Continue 's | Return 's | Throw 's string

fun for_lines :: "(string \<Rightarrow> 's \<Rightarrow> 's flow) \<Rightarrow> string list \<Rightarrow> 's \<Rightarrow> 's flow" where
  "for_lines h [] s = Continue s"
| "for_lines h (line # lines) s =
     (if \<not> startsWith line ''data: '' then for_lines h lines s
      else
        (case h (trim (drop 6 line)) s of
           Continue s' \<Rightarrow> for_lines h lines s'
         | Return s' \<Rightarrow> Return s'
         | Throw s' e \<Rightarrow> Throw s' e))"

text \<open>
  The body of an HTTP response as the reader delivers it: the texts of the successive
  reads, and how the body ends: \<^const>\<open>None\<close> when \<^verbatim>\<open>read()\<close> reports \<^verbatim>\<open>done\<close>, or
  the message of the error \<^verbatim>\<open>read()\<close> rejects with (a network failure, an abort).
\<close>

fun read_loop ::
  "(string \<Rightarrow> 's \<Rightarrow> 's flow) \<Rightarrow> string \<Rightarrow> string list \<Rightarrow> string option \<Rightarrow> 's \<Rightarrow> 's flow" where
  "read_loop h buf [] None s = Continue s"
| "read_loop h buf [] (Some e) s = Throw s e"
| "read_loop h buf (v # reads) ending s =
     (case for_lines h (butlast (split_nl (buf @ v))) s of
        Continue s' \<Rightarrow> read_loop h (last (split_nl (buf @ v))) reads ending s'
      | Return s' \<Rightarrow> Return s'
      | Throw s' e \<Rightarrow> Throw s' e)"

text \<open>
  The lines the loop has processed after any number of reads are the complete lines of
  the text read so far, and the buffer is the incomplete last one: the loop over the
  reads is one pass over the lines of their concatenation.
\<close>

lemma split_nl_nonempty: "split_nl s \<noteq> []"
  by (induction s) (auto split: list.splits)

lemma split_nl_append:
  "split_nl (a @ b) = butlast (split_nl a) @ split_nl (last (split_nl a) @ b)"
proof (induction a)
  case Nil
  then show ?case by simp
next
  case (Cons c a)
  show ?case
  proof (cases "c = CHR 0x0A")
    case True
    with Cons show ?thesis by (simp add: split_nl_nonempty)
  next
    case False
    show ?thesis
    proof (cases "split_nl a")
      case Nil
      then show ?thesis using split_nl_nonempty by blast
    next
      case (Cons l ls)
      note sa = this
      show ?thesis
      proof (cases ls)
        case Nil
        with sa Cons.IH False show ?thesis by simp
      next
        case (Cons l' ls')
        with sa Cons.IH False show ?thesis by (simp add: split_nl_nonempty)
      qed
    qed
  qed
qed

lemma split_nl_no_nl: "CHR 0x0A \<notin> set s \<Longrightarrow> split_nl s = [s]"
  by (induction s) (auto split: list.splits)

lemma last_split_nl_no_nl: "CHR 0x0A \<notin> set (last (split_nl s))"
proof (induction s)
  case Nil
  then show ?case by simp
next
  case (Cons c s)
  then show ?case
    by (cases "split_nl s"; cases "tl (split_nl s)") (auto simp: split_nl_nonempty split: list.splits)
qed

lemma for_lines_append:
  "for_lines h (xs @ ys) s =
     (case for_lines h xs s of
        Continue s' \<Rightarrow> for_lines h ys s'
      | Return s' \<Rightarrow> Return s'
      | Throw s' e \<Rightarrow> Throw s' e)"
  by (induction xs arbitrary: s) (auto split: flow.splits)

lemma read_loop_eq:
  "CHR 0x0A \<notin> set buf \<Longrightarrow>
   read_loop h buf reads ending s =
     (case for_lines h (butlast (split_nl (buf @ concat reads))) s of
        Continue s' \<Rightarrow> (case ending of None \<Rightarrow> Continue s' | Some e \<Rightarrow> Throw s' e)
      | Return s' \<Rightarrow> Return s'
      | Throw s' e \<Rightarrow> Throw s' e)"
proof (induction reads arbitrary: buf s)
  case Nil
  then show ?case by (cases ending) (simp_all add: split_nl_no_nl)
next
  case (Cons v reads)
  have "split_nl (buf @ v @ concat reads)
        = butlast (split_nl (buf @ v)) @ split_nl (last (split_nl (buf @ v)) @ concat reads)"
    using split_nl_append [of "buf @ v" "concat reads"] by simp
  then have "butlast (split_nl (buf @ v @ concat reads))
        = butlast (split_nl (buf @ v)) @ butlast (split_nl (last (split_nl (buf @ v)) @ concat reads))"
    by (simp add: butlast_append split_nl_nonempty)
  then show ?case
    by (simp add: Cons.IH [OF last_split_nl_no_nl] for_lines_append split: flow.splits)
qed

lemma read_loop_one_piece:
  "read_loop h [] reads ending s = read_loop h [] [concat reads] ending s"
  by (simp add: read_loop_eq del: read_loop.simps)

section \<open>The Stream Proxy: \<^verbatim>\<open>supabase/functions/stream-ai/index.ts\<close>\<close>

datatype Provider = perplexity | gemini | chatgpt | claude

datatype Role = user | assistant

record ChatMessage =
  role :: Role
  content :: string

subsection \<open>The outbound protocol\<close>

text \<open>
  \<^verbatim>\<open>JSON.stringify\<close> of a string: quotes, with the quote, the backslash and the control
  characters escaped.
\<close>

definition hex_digit :: "nat \<Rightarrow> char" where
  "hex_digit d = (if d < 10 then char_of (48 + d) else char_of (87 + d))"

definition escape_char :: "char \<Rightarrow> string" where
  "escape_char c =
     (if c = CHR 0x22 then [CHR 0x5C, CHR 0x22]
      else if c = CHR 0x5C then [CHR 0x5C, CHR 0x5C]
      else if c = CHR 0x08 then [CHR 0x5C, CHR ''b'']
      else if c = CHR 0x0C then [CHR 0x5C, CHR ''f'']
      else if c = CHR 0x0A then [CHR 0x5C, CHR ''n'']
      else if c = CHR 0x0D then [CHR 0x5C, CHR ''r'']
      else if c = CHR 0x09 then [CHR 0x5C, CHR ''t'']
      else if (of_char c :: nat) < 0x20 then
        [CHR 0x5C, CHR ''u'', CHR ''0'', CHR ''0'',
         hex_digit (of_char c div 16), hex_digit (of_char c mod 16)]
      else [c])"

definition quote :: "string \<Rightarrow> string" where
  "quote s = [CHR 0x22] @ concat (map escape_char s) @ [CHR 0x22]"

text \<open>
  \<^verbatim>\<open>sseChunk\<close>, \<^verbatim>\<open>sseDone\<close> and \<^verbatim>\<open>sseError\<close> give the text of one record.
  \<^verbatim>\<open>sseChunk\<close> is declared for a string; the adapters pass it whatever truthy value
  they found in the provider's record, so the records a stream holds are kept as the call
  that made them (\<^typ>\<open>json\<close> content for a chunk), and the text is given for strings.
\<close>

definition sseChunk :: "string \<Rightarrow> string" where
  "sseChunk c = ''data: '' @ ''{'' @ quote ''type'' @ '':'' @ quote ''chunk'' @ '','' @ quote ''content'' @ '':'' @ quote c @ ''}'' @ [CHR 0x0A, CHR 0x0A]"

definition sseDone :: "string" where
  "sseDone = ''data: [DONE]'' @ [CHR 0x0A, CHR 0x0A]"

definition error_json :: "string \<Rightarrow> string" where
  "error_json message = ''{'' @ quote ''type'' @ '':'' @ quote ''error'' @ '','' @ quote ''message'' @ '':'' @ quote message @ ''}''"

definition sseError :: "string \<Rightarrow> string" where
  "sseError message = ''data: '' @ error_json message @ [CHR 0x0A, CHR 0x0A]"

datatype sse = SseChunk json | SseDone | SseError string

subsection \<open>The stream controller and \<^verbatim>\<open>makeStream\<close>\<close>

text \<open>
  A \<^verbatim>\<open>ReadableStreamDefaultController\<close>: the records enqueued, and whether the stream
  was closed. \<^verbatim>\<open>enqueue\<close> and \<^verbatim>\<open>close\<close> throw a TypeError on a closed stream.
\<close>

record controller =
  queue :: "sse list"
  closed :: bool

definition enqueue :: "sse \<Rightarrow> controller \<Rightarrow> string + controller" where
  "enqueue r c =
     (if closed c then Inl ''The stream controller cannot close or enqueue''
      else Inr (c\<lparr>queue := queue c @ [r]\<rparr>))"

definition close :: "controller \<Rightarrow> string + controller" where
  "close c =
     (if closed c then Inl ''The stream controller cannot close or enqueue''
      else Inr (c\<lparr>closed := True\<rparr>))"

text \<open>\<^verbatim>\<open>controller.enqueue(enc.encode(sseDone())); controller.close(); return;\<close>\<close>

definition finish :: "controller \<Rightarrow> controller flow" where
  "finish c =
     (case enqueue SseDone c of
        Inl e \<Rightarrow> Throw c e
      | Inr c1 \<Rightarrow> (case close c1 of Inl e \<Rightarrow> Throw c1 e | Inr c2 \<Rightarrow> Return c2))"

text \<open>
  \<^verbatim>\<open>makeStream\<close> starts the generator on a fresh controller; when the generator's promise
  rejects, it enqueues one error record and closes. The result is the controller when the
  generator has settled: what the client receives.
\<close>

definition new_controller :: controller where
  "new_controller = \<lparr>queue = [], closed = False\<rparr>"

definition on_rejected :: "string \<Rightarrow> controller \<Rightarrow> controller" where
  "on_rejected msg c =
     (case enqueue (SseError msg) c of
        Inl _ \<Rightarrow> c
      | Inr c1 \<Rightarrow> (case close c1 of Inl _ \<Rightarrow> c1 | Inr c2 \<Rightarrow> c2))"

definition makeStream :: "(controller \<Rightarrow> controller flow) \<Rightarrow> controller" where
  "makeStream generator =
     (case generator new_controller of
        Continue c \<Rightarrow> c
      | Return c \<Rightarrow> c
      | Throw c msg \<Rightarrow> on_rejected msg c)"

text \<open>
  The shape of a finished stream: chunk records, then one terminal record, \<^verbatim>\<open>[DONE]\<close> or
  an error record. While an adapter runs, the stream is open and holds chunk records only.
\<close>

fun is_chunk :: "sse \<Rightarrow> bool" where
  "is_chunk (SseChunk _) = True"
| "is_chunk _ = False"

fun is_terminal :: "sse \<Rightarrow> bool" where
  "is_terminal (SseChunk _) = False"
| "is_terminal _ = True"

definition well_formed :: "sse list \<Rightarrow> bool" where
  "well_formed q = (q \<noteq> [] \<and> list_all is_chunk (butlast q) \<and> is_terminal (last q))"

definition streaming :: "controller \<Rightarrow> bool" where
  "streaming c = (\<not> closed c \<and> list_all is_chunk (queue c))"

definition terminated :: "controller \<Rightarrow> bool" where
  "terminated c = (closed c \<and> well_formed (queue c))"

fun flow_ok :: "controller flow \<Rightarrow> bool" where
  "flow_ok (Continue c) = streaming c"
| "flow_ok (Return c) = terminated c"
| "flow_ok (Throw c e) = streaming c"

subsection \<open>Upstream requests and responses\<close>

text \<open>
  What \<^verbatim>\<open>fetch\<close> gives for a request: it rejects (a network failure, an abort), or
  resolves to a response with a status and a body, or with a status and no body
  (\<^verbatim>\<open>res.body\<close> is \<^verbatim>\<open>null\<close>). \<^verbatim>\<open>res.ok\<close> is a status from 200 to 299;
  \<^verbatim>\<open>res.text()\<close> reads the whole body.
\<close>

datatype upstream =
    FetchFails string
  | NoBody nat
  | Upstream nat "string list" "string option"

datatype payload =
    OpenAIBody string "ChatMessage list"
  | AnthropicBody string nat "ChatMessage list"
  | GeminiBody "(string \<times> string) list"
  | ProxyBody Provider string "ChatMessage list"

record request =
  url :: string
  headers :: "(string \<times> string) list"
  body :: payload

type_synonym network = "request \<Rightarrow> upstream"

definition ok :: "nat \<Rightarrow> bool" where
  "ok st = (200 \<le> st \<and> st \<le> 299)"

text \<open>
  The part the three adapters share after \<^verbatim>\<open>fetch\<close>: the check of \<^verbatim>\<open>res.ok\<close>, the
  decode loop with the adapter's line handling, and the closing \<^verbatim>\<open>[DONE]\<close> when the body
  ends. \<open>name\<close> is the provider's name in the error message.
\<close>

definition adapter ::
  "string \<Rightarrow> (string \<Rightarrow> controller \<Rightarrow> controller flow) \<Rightarrow> upstream \<Rightarrow> controller \<Rightarrow> controller flow" where
  "adapter name h res c =
     (case res of
        FetchFails e \<Rightarrow> Throw c e
      | NoBody st \<Rightarrow>
          if \<not> ok st then Throw c (name @ '' error '' @ show_nat st @ '': '')
          else Throw c (type_error ''null'' ''getReader'')
      | Upstream st reads ending \<Rightarrow>
          if \<not> ok st then
            (case ending of
               Some e \<Rightarrow> Throw c e
             | None \<Rightarrow> Throw c (name @ '' error '' @ show_nat st @ '': '' @ concat reads))
          else
            (case read_loop h [] reads ending c of
               Continue c' \<Rightarrow> finish c'
             | Return c' \<Rightarrow> Return c'
             | Throw c' e \<Rightarrow> Throw c' e))"

subsection \<open>The adapters' handling of one payload\<close>

text \<open>
  OpenAI: the sentinel \<^verbatim>\<open>[DONE]\<close> ends the stream; everything else is inside
  \<^verbatim>\<open>try { ... } catch { }\<close>, which swallows the SyntaxError of \<^verbatim>\<open>JSON.parse\<close>, the
  TypeError of \<^verbatim>\<open>parsed.choices\<close> on \<^verbatim>\<open>null\<close> and an error of \<^verbatim>\<open>enqueue\<close>.
\<close>

definition openai_line :: "string \<Rightarrow> controller \<Rightarrow> controller flow" where
  "openai_line payload c =
     (if payload = ''[DONE]'' then finish c
      else
        (case JSON_parse payload of
           None \<Rightarrow> Continue c
         | Some parsed \<Rightarrow>
             (case dot ''choices'' (Some parsed) of
                Inl _ \<Rightarrow> Continue c
              | Inr choices \<Rightarrow>
                  (case opt_prop ''content'' (opt_prop ''delta'' (opt_index0 choices)) of
                     None \<Rightarrow> Continue c
                   | Some delta_content \<Rightarrow>
                       if truthy (Some delta_content) then
                         (case enqueue (SseChunk delta_content) c of
                            Inl _ \<Rightarrow> Continue c
                          | Inr c' \<Rightarrow> Continue c')
                       else Continue c))))"

text \<open>
  Anthropic: only a SyntaxError is skipped; every other error is thrown again, among
  them the TypeError of \<^verbatim>\<open>event.type\<close> on \<^verbatim>\<open>null\<close> and the error the adapter throws
  itself for an \<^verbatim>\<open>error\<close> event, with \<^verbatim>\<open>event.error?.message ?? 'Anthropic stream error'\<close>.
\<close>

definition anthropic_message :: "json \<Rightarrow> string" where
  "anthropic_message event =
     (case opt_prop ''message'' (get_prop ''error'' event) of
        None \<Rightarrow> ''Anthropic stream error''
      | Some JNull \<Rightarrow> ''Anthropic stream error''
      | Some m \<Rightarrow> toString m)"

definition anthropic_line :: "string \<Rightarrow> controller \<Rightarrow> controller flow" where
  "anthropic_line payload c =
     (case JSON_parse payload of
        None \<Rightarrow> Continue c
      | Some event \<Rightarrow>
          (case dot ''type'' (Some event) of
             Inl e \<Rightarrow> Throw c e
           | Inr ty \<Rightarrow>
               if ty = Some (JStr ''content_block_delta'')
                  \<and> opt_prop ''type'' (get_prop ''delta'' event) = Some (JStr ''text_delta'')
                  \<and> truthy (opt_prop ''text'' (get_prop ''delta'' event))
               then
                 (case opt_prop ''text'' (get_prop ''delta'' event) of
                    None \<Rightarrow> Continue c
                  | Some text \<Rightarrow>
                      (case enqueue (SseChunk text) c of
                         Inl e \<Rightarrow> Throw c e
                       | Inr c' \<Rightarrow> Continue c'))
               else if ty = Some (JStr ''message_stop'') then finish c
               else if ty = Some (JStr ''error'') then Throw c (anthropic_message event)
               else Continue c))"

text \<open>Gemini: every access is optional, and the \<^verbatim>\<open>catch\<close> swallows every error.\<close>

definition gemini_line :: "string \<Rightarrow> controller \<Rightarrow> controller flow" where
  "gemini_line payload c =
     (case JSON_parse payload of
        None \<Rightarrow> Continue c
      | Some event \<Rightarrow>
          (case opt_prop ''text'' (opt_index0 (opt_prop ''parts'' (opt_prop ''content''
                  (opt_index0 (opt_prop ''candidates'' (Some event)))))) of
             None \<Rightarrow> Continue c
           | Some text \<Rightarrow>
               if truthy (Some text) then
                 (case enqueue (SseChunk text) c of
                    Inl _ \<Rightarrow> Continue c
                  | Inr c' \<Rightarrow> Continue c')
               else Continue c))"

subsection \<open>The adapters\<close>

text \<open>Each adapter makes one \<^verbatim>\<open>fetch\<close>. It returns the requests it made and how it ended.\<close>

definition openai_request :: "string \<Rightarrow> ChatMessage list \<Rightarrow> string \<Rightarrow> string \<Rightarrow> request" where
  "openai_request apiKey messages baseUrl model =
     \<lparr>url = baseUrl @ ''/chat/completions'',
      headers = [(''Authorization'', ''Bearer '' @ apiKey), (''Content-Type'', ''application/json'')],
      body = OpenAIBody model messages\<rparr>"

definition streamOpenAI ::
  "network \<Rightarrow> string \<Rightarrow> ChatMessage list \<Rightarrow> controller \<Rightarrow> string \<Rightarrow> string \<Rightarrow> request list \<times> controller flow" where
  "streamOpenAI net apiKey messages c baseUrl model =
     ([openai_request apiKey messages baseUrl model],
      adapter ''OpenAI'' openai_line (net (openai_request apiKey messages baseUrl model)) c)"

definition anthropic_request :: "string \<Rightarrow> ChatMessage list \<Rightarrow> request" where
  "anthropic_request apiKey messages =
     \<lparr>url = ''https://api.anthropic.com/v1/messages'',
      headers = [(''x-api-key'', apiKey), (''anthropic-version'', ''2023-06-01''),
                 (''content-type'', ''application/json'')],
      body = AnthropicBody ''claude-sonnet-4-6'' 1024 messages\<rparr>"

definition streamAnthropic ::
  "network \<Rightarrow> string \<Rightarrow> ChatMessage list \<Rightarrow> controller \<Rightarrow> request list \<times> controller flow" where
  "streamAnthropic net apiKey messages c =
     ([anthropic_request apiKey messages],
      adapter ''Anthropic'' anthropic_line (net (anthropic_request apiKey messages)) c)"

definition gemini_request :: "string \<Rightarrow> ChatMessage list \<Rightarrow> request" where
  "gemini_request apiKey messages =
     \<lparr>url = ''https://generativelanguage.googleapis.com/v1beta/models/'' @ ''gemini-1.5-flash''
             @ '':streamGenerateContent?alt=sse&key='' @ apiKey,
      headers = [(''Content-Type'', ''application/json'')],
      body = GeminiBody (map (\<lambda>m. (if role m = assistant then ''model'' else ''user'', content m)) messages)\<rparr>"

definition streamGemini ::
  "network \<Rightarrow> string \<Rightarrow> ChatMessage list \<Rightarrow> controller \<Rightarrow> request list \<times> controller flow" where
  "streamGemini net apiKey messages c =
     ([gemini_request apiKey messages],
      adapter ''Gemini'' gemini_line (net (gemini_request apiKey messages)) c)"

text \<open>The \<^verbatim>\<open>switch (provider)\<close> of the handler, the generator it hands to \<^verbatim>\<open>makeStream\<close>.\<close>

fun dispatch ::
  "network \<Rightarrow> Provider \<Rightarrow> string \<Rightarrow> ChatMessage list \<Rightarrow> controller \<Rightarrow> request list \<times> controller flow" where
  "dispatch net chatgpt apiKey messages c =
     streamOpenAI net apiKey messages c ''https://api.openai.com/v1'' ''gpt-4o-mini''"
| "dispatch net claude apiKey messages c = streamAnthropic net apiKey messages c"
| "dispatch net gemini apiKey messages c = streamGemini net apiKey messages c"
| "dispatch net perplexity apiKey messages c =
     streamOpenAI net apiKey messages c ''https://api.perplexity.ai'' ''llama-3.1-sonar-large-128k-online''"

subsection \<open>The request handler\<close>

text \<open>
  The stream the handler builds for a resolved credential:
  \<^verbatim>\<open>makeStream(async (controller) => { switch (provider) ... })\<close>, with the upstream
  requests that were made and the controller the client reads from.
\<close>

definition proxy_stream ::
  "network \<Rightarrow> Provider \<Rightarrow> string \<Rightarrow> ChatMessage list \<Rightarrow> request list \<times> controller" where
  "proxy_stream net p apiKey messages =
     (fst (dispatch net p apiKey messages new_controller),
      makeStream (\<lambda>c. snd (dispatch net p apiKey messages c)))"

text \<open>
  The JSON body of a request, with the fields of \<^verbatim>\<open>RequestBody\<close> in their order:
  provider, question, conversationHistory; a field the body lacks is \<^const>\<open>None\<close>.
\<close>

datatype RequestBody = RequestBody "Provider option" "string option" "ChatMessage list option"

text \<open>
  An incoming request: its method and what \<^verbatim>\<open>req.json()\<close> gives, the body or the
  message of the error it throws.
\<close>

record http_request =
  http_method :: string
  json_body :: "string + RequestBody"

text \<open>
  What the handler reads from its environment: for each provider what the query of the
  caller's stored key gives (the message of an error thrown while the database client is
  built or queried, or the \<^verbatim>\<open>{ data, error }\<close> of \<^verbatim>\<open>get_decrypted_key\<close>), and the
  environment variables.
\<close>

record rpc_result =
  data :: "string option"
  error :: bool

record environment =
  get_decrypted_key :: "Provider \<Rightarrow> string + rpc_result"
  env_get :: "string \<Rightarrow> string option"

text \<open>\<^verbatim>\<open>getUserApiKey\<close>: \<^verbatim>\<open>if (error || !data) return null; return data\<close>.\<close>

definition getUserApiKey :: "rpc_result \<Rightarrow> string option" where
  "getUserApiKey r = (if error r \<or> \<not> Boolean (data r) then None else data r)"

fun envKeyMap :: "Provider \<Rightarrow> string" where
  "envKeyMap chatgpt = ''OPENAI_API_KEY''"
| "envKeyMap claude = ''ANTHROPIC_API_KEY''"
| "envKeyMap gemini = ''GOOGLE_AI_API_KEY''"
| "envKeyMap perplexity = ''PERPLEXITY_API_KEY''"

text \<open>The tag of a provider as a template literal prints it.\<close>

fun provider_tag :: "Provider \<Rightarrow> string" where
  "provider_tag perplexity = ''perplexity''"
| "provider_tag gemini = ''gemini''"
| "provider_tag chatgpt = ''chatgpt''"
| "provider_tag claude = ''claude''"

text \<open>The message for an unconfigured provider; its arrow is U+2192.\<close>

definition no_key_message :: "Provider \<Rightarrow> string" where
  "no_key_message p =
     ''No API key configured for '' @ provider_tag p @ ''. Add yours in Settings ''
     @ [CHR 0xE2, CHR 0x86, CHR 0x92] @ '' API Keys.''"

datatype response_body = NoContent | Text string | EventStream controller

record response =
  status :: nat
  contentType :: "string option"
  sent :: response_body

definition internal_error :: "string \<Rightarrow> response" where
  "internal_error msg =
     \<lparr>status = 500, contentType = Some ''text/event-stream'', sent = Text (sseError msg)\<rparr>"

text \<open>
  \<^verbatim>\<open>Deno.serve(async (req) => ...)\<close>: the upstream requests made while the request is
  served, and the response.
\<close>

definition handler :: "environment \<Rightarrow> network \<Rightarrow> http_request \<Rightarrow> request list \<times> response" where
  "handler env net req =
     (if http_method req = ''OPTIONS'' then
        ([], \<lparr>status = 200, contentType = None, sent = NoContent\<rparr>)
      else if http_method req \<noteq> ''POST'' then
        ([], \<lparr>status = 405, contentType = Some ''text/plain;charset=UTF-8'',
               sent = Text ''Method not allowed''\<rparr>)
      else
        (case json_body req of
           Inl e \<Rightarrow> ([], internal_error e)
         | Inr (RequestBody None _ _) \<Rightarrow>
             ([], \<lparr>status = 400, contentType = Some ''text/plain;charset=UTF-8'',
                    sent = Text ''Missing provider or question''\<rparr>)
         | Inr (RequestBody (Some p) None _) \<Rightarrow>
             ([], \<lparr>status = 400, contentType = Some ''text/plain;charset=UTF-8'',
                    sent = Text ''Missing provider or question''\<rparr>)
         | Inr (RequestBody (Some p) (Some question) history) \<Rightarrow>
             if question = [] then
               ([], \<lparr>status = 400, contentType = Some ''text/plain;charset=UTF-8'',
                      sent = Text ''Missing provider or question''\<rparr>)
             else
               (case get_decrypted_key env p of
                  Inl e \<Rightarrow> ([], internal_error e)
                | Inr r \<Rightarrow>
                    (case (case getUserApiKey r of
                             Some userKey \<Rightarrow> Some userKey
                           | None \<Rightarrow> env_get env (envKeyMap p)) of
                       None \<Rightarrow>
                         ([], \<lparr>status = 400, contentType = Some ''application/json'',
                                sent = Text (error_json (no_key_message p))\<rparr>)
                     | Some apiKey \<Rightarrow>
                         if apiKey = [] then
                           ([], \<lparr>status = 400, contentType = Some ''application/json'',
                                  sent = Text (error_json (no_key_message p))\<rparr>)
                         else
                           (case proxy_stream net p apiKey
                                   ((case history of None \<Rightarrow> [] | Some h \<Rightarrow> h)
                                    @ [\<lparr>role = user, content = question\<rparr>]) of
                              (calls, c) \<Rightarrow>
                                (calls, \<lparr>status = 200, contentType = Some ''text/event-stream'',
                                         sent = EventStream c\<rparr>))))))"

lemma adapter_one_piece:
  "adapter name h (Upstream st reads ending) c = adapter name h (Upstream st [concat reads] ending) c"
  unfolding adapter_def using read_loop_one_piece [of h reads ending c]
  by (cases ending) (simp_all del: read_loop.simps)

section \<open>The Transport Client: \<^verbatim>\<open>src/services/aiService.ts\<close>\<close>

subsection \<open>Configuration (\<^verbatim>\<open>src/lib/supabase.ts\<close>)\<close>

record config =
  supabaseUrl :: "string option"
  supabaseAnonKey :: "string option"

definition isSupabaseConfigured :: "config \<Rightarrow> bool" where
  "isSupabaseConfigured cfg = (Boolean (supabaseUrl cfg) \<and> Boolean (supabaseAnonKey cfg))"

definition supabaseFunctionsUrl :: "config \<Rightarrow> string option" where
  "supabaseFunctionsUrl cfg =
     (case supabaseUrl cfg of
        None \<Rightarrow> None
      | Some u \<Rightarrow> if u = [] then None else Some (u @ ''/functions/v1''))"

subsection \<open>Cancellation as \<^verbatim>\<open>fetch\<close> sees it\<close>

text \<open>
  \<^verbatim>\<open>realStream\<close> never reads its signal: it hands it to \<^verbatim>\<open>fetch\<close>. The platform then
  rejects \<^verbatim>\<open>fetch\<close>, or the \<^verbatim>\<open>read()\<close> that is pending or comes next, once the signal is
  raised. A signal is described by when it is raised: never, or after the response and a
  number of reads of its body have been delivered (\<open>RaisedAfter 0\<close>: before \<^verbatim>\<open>fetch\<close>
  resolved). The message of the rejection is the browser's.
\<close>

datatype AbortSignal = NeverRaised | RaisedAfter nat

definition AbortError :: string where
  "AbortError = ''signal is aborted without reason''"

fun fetch :: "network \<Rightarrow> request \<Rightarrow> AbortSignal \<Rightarrow> upstream" where
  "fetch net req NeverRaised = net req"
| "fetch net req (RaisedAfter 0) = FetchFails AbortError"
| "fetch net req (RaisedAfter (Suc k)) =
     (case net req of
        Upstream st reads ending \<Rightarrow>
          if k \<le> length reads then Upstream st (take k reads) (Some AbortError)
          else Upstream st reads ending
      | res \<Rightarrow> res)"

subsection \<open>\<^verbatim>\<open>realStream\<close>\<close>

record Message =
  id :: string
  role :: Role
  content :: string
  provider :: "Provider option"
  timestamp :: nat

definition proxy_request ::
  "config \<Rightarrow> Provider \<Rightarrow> string \<Rightarrow> Message list \<Rightarrow> string \<Rightarrow> request" where
  "proxy_request cfg p question conversationHistory accessToken =
     \<lparr>url = (case supabaseFunctionsUrl cfg of None \<Rightarrow> ''null'' | Some u \<Rightarrow> u) @ ''/stream-ai'',
      headers =
        [(''Authorization'', ''Bearer '' @ accessToken), (''Content-Type'', ''application/json'')]
        @ (case supabaseAnonKey cfg of
             None \<Rightarrow> []
           | Some k \<Rightarrow> if k = [] then [] else [(''apikey'', k)]),
      body = ProxyBody p question
               (map (\<lambda>m. \<lparr>ChatMessage.role = Message.role m, content = Message.content m\<rparr>)
                  conversationHistory)\<rparr>"

text \<open>
  The handling of one payload of the outbound protocol. The state is the list of the
  values yielded so far. \<^verbatim>\<open>event.type\<close> stands outside the \<^verbatim>\<open>try\<close>: on \<^verbatim>\<open>null\<close> its
  TypeError leaves the generator. \<^verbatim>\<open>new Error(event.message)\<close> has the empty message for
  \<^verbatim>\<open>undefined\<close>.
\<close>

definition client_line :: "string \<Rightarrow> json list \<Rightarrow> json list flow" where
  "client_line payload ys =
     (if payload = ''[DONE]'' then Return ys
      else
        (case JSON_parse payload of
           None \<Rightarrow> Continue ys
         | Some event \<Rightarrow>
             (case dot ''type'' (Some event) of
                Inl e \<Rightarrow> Throw ys e
              | Inr ty \<Rightarrow>
                  if ty = Some (JStr ''chunk'') \<and> truthy (get_prop ''content'' event) then
                    (case get_prop ''content'' event of
                       None \<Rightarrow> Continue ys
                     | Some c \<Rightarrow> Continue (ys @ [c]))
                  else if ty = Some (JStr ''error'') then
                    Throw ys (case get_prop ''message'' event of None \<Rightarrow> [] | Some m \<Rightarrow> toString m)
                  else Continue ys)))"

text \<open>
  What a generator did when it is run to its end: the values it yielded, and whether it
  returned (\<^const>\<open>Return\<close>) or threw (\<^const>\<open>Throw\<close>).
\<close>

definition response_stream :: "upstream \<Rightarrow> json list flow" where
  "response_stream res =
     (case res of
        FetchFails e \<Rightarrow> Throw [] e
      | NoBody st \<Rightarrow>
          if \<not> ok st then Throw [] (''HTTP '' @ show_nat st)
          else Throw [] ''No response body from stream-ai''
      | Upstream st reads ending \<Rightarrow>
          if \<not> ok st then
            (let body = (case ending of None \<Rightarrow> concat reads | Some _ \<Rightarrow> ''HTTP '' @ show_nat st)
             in Throw [] (if body \<noteq> [] then body else ''HTTP '' @ show_nat st))
          else
            (case read_loop client_line [] reads ending [] of
               Continue ys \<Rightarrow> Return ys
             | Return ys \<Rightarrow> Return ys
             | Throw ys e \<Rightarrow> Throw ys e))"

definition realStream ::
  "config \<Rightarrow> network \<Rightarrow> Provider \<Rightarrow> string \<Rightarrow> Message list \<Rightarrow> string \<Rightarrow> AbortSignal \<Rightarrow> json list flow" where
  "realStream cfg net p question conversationHistory accessToken signal =
     response_stream (fetch net (proxy_request cfg p question conversationHistory accessToken) signal)"

subsection \<open>\<^verbatim>\<open>mockStream\<close> and the canned responses (\<^verbatim>\<open>src/lib/mockData.ts\<close>)\<close>

definition mock_perplexity_0 :: string where
  \<open>mock_perplexity_0 =
       ''Based on my analysis of multiple sources, here''
     @ [CHR 0x27]
     @ ''s what I found:''
     @ [CHR 0x0A, CHR 0x0A]
     @ ''The topic you''
     @ [CHR 0x27]
     @ ''re asking about has several key aspects worth exploring. According to ''
     @ ''recent research and verified sources, the main points are:''
     @ [CHR 0x0A, CHR 0x0A]
     @ ''1. **Primary Finding**: The data suggests a strong correlation between''
     @ '' the variables you mentioned.''
     @ [CHR 0x0A, CHR 0x0A]
     @ ''2. **Supporting Evidence**: Multiple peer-reviewed studies confirm thi''
     @ ''s pattern.''
     @ [CHR 0x0A, CHR 0x0A]
     @ ''3. **Practical Implications**: This means you can apply these insights''
     @ '' directly to your situation.''
     @ [CHR 0x0A, CHR 0x0A]
     @ ''Sources: Academic journals, industry reports, and expert analyses.''\<close>

definition mock_perplexity_1 :: string where
  \<open>mock_perplexity_1 =
       ''I''
     @ [CHR 0x27]
     @ ''ve searched through the latest information available:''
     @ [CHR 0x0A, CHR 0x0A]
     @ ''Your question touches on an evolving area. Here''
     @ [CHR 0x27]
     @ ''s the current consensus:''
     @ [CHR 0x0A, CHR 0x0A, CHR 0xE2, CHR 0x80, CHR 0xA2]
     @ '' The mainstream view supports the conventional approach''
     @ [CHR 0x0A, CHR 0xE2, CHR 0x80, CHR 0xA2]
     @ '' However, emerging research points to alternative methods''
     @ [CHR 0x0A, CHR 0xE2, CHR 0x80, CHR 0xA2]
     @ '' Experts recommend considering both perspectives''
     @ [CHR 0x0A, CHR 0x0A]
     @ ''Would you like me to dive deeper into any specific aspect?''\<close>

definition mock_gemini_0 :: string where
  \<open>mock_gemini_0 =
       ''Great question! Let me break this down for you:''
     @ [CHR 0x0A, CHR 0x0A]
     @ ''**Overview**''
     @ [CHR 0x0A]
     @ ''This is a fascinating topic that spans multiple domains. Here''
     @ [CHR 0x27]
     @ ''s my analysis:''
     @ [CHR 0x0A, CHR 0x0A]
     @ ''**Key Points**''
     @ [CHR 0x0A, CHR 0xE2, CHR 0x86, CHR 0x92]
     @ '' The fundamental principle is straightforward''
     @ [CHR 0x0A, CHR 0xE2, CHR 0x86, CHR 0x92]
     @ '' Applications range from simple to complex''
     @ [CHR 0x0A, CHR 0xE2, CHR 0x86, CHR 0x92]
     @ '' Best practices have evolved significantly''
     @ [CHR 0x0A, CHR 0x0A]
     @ ''**My Recommendation**''
     @ [CHR 0x0A]
     @ ''Start with the basics and build from there. I can provide more specifi''
     @ ''c guidance if you share your particular context.''
     @ [CHR 0x0A, CHR 0x0A]
     @ ''*Would you like code examples or visual explanations?*''\<close>

definition mock_gemini_1 :: string where
  \<open>mock_gemini_1 =
       ''Here''
     @ [CHR 0x27]
     @ ''s what I can tell you:''
     @ [CHR 0x0A, CHR 0x0A, CHR 0xF0, CHR 0x9F, CHR 0x8E, CHR 0xAF]
     @ '' **Direct Answer**: Yes, this is definitely possible and here''
     @ [CHR 0x27]
     @ ''s how.''
     @ [CHR 0x0A, CHR 0x0A, CHR 0xF0, CHR 0x9F, CHR 0x93, CHR 0x9A]
     @ '' **Background**: The concept originated in the early 2000s and has sin''
     @ ''ce become industry standard.''
     @ [CHR 0x0A, CHR 0x0A, CHR 0xF0, CHR 0x9F, CHR 0x92, CHR 0xA1]
     @ '' **Pro Tip**: Consider using the latest version for best results - it ''
     @ ''includes significant improvements.''
     @ [CHR 0x0A, CHR 0x0A]
     @ ''Let me know if you''
     @ [CHR 0x27]
     @ ''d like me to elaborate on any part!''\<close>

definition mock_chatgpt_0 :: string where
  \<open>mock_chatgpt_0 =
       ''I''
     @ [CHR 0x27]
     @ ''d be happy to help you with that!''
     @ [CHR 0x0A, CHR 0x0A]
     @ ''To answer your question comprehensively:''
     @ [CHR 0x0A, CHR 0x0A]
     @ ''**Short Answer**: The most effective approach depends on your specific''
     @ '' requirements, but generally speaking, option A tends to work best for''
     @ '' most use cases.''
     @ [CHR 0x0A, CHR 0x0A]
     @ ''**Detailed Explanation**:''
     @ [CHR 0x0A]
     @ ''When we look at this problem, there are several factors to consider:''
     @ [CHR 0x0A, CHR 0x0A]
     @ ''1. **Performance** - This affects how quickly you''
     @ [CHR 0x27]
     @ ''ll see results''
     @ [CHR 0x0A]
     @ ''2. **Scalability** - Important if you plan to grow''
     @ [CHR 0x0A]
     @ ''3. **Maintainability** - Long-term considerations matter''
     @ [CHR 0x0A, CHR 0x0A]
     @ ''Here''
     @ [CHR 0x27]
     @ ''s a practical example:''
     @ [CHR 0x0A]
     @ ''```''
     @ [CHR 0x0A]
     @ ''Step 1: Define your goals''
     @ [CHR 0x0A]
     @ ''Step 2: Assess your resources''
     @ [CHR 0x0A]
     @ ''Step 3: Implement incrementally''
     @ [CHR 0x0A]
     @ ''```''
     @ [CHR 0x0A, CHR 0x0A]
     @ ''Would you like me to provide more specific guidance for your situation''
     @ ''?''\<close>

definition mock_chatgpt_1 :: string where
  \<open>mock_chatgpt_1 =
       ''That''
     @ [CHR 0x27]
     @ ''s an interesting question! Here''
     @ [CHR 0x27]
     @ ''s my take:''
     @ [CHR 0x0A, CHR 0x0A]
     @ ''**The Quick Version**: It depends on context, but here are the key con''
     @ ''siderations.''
     @ [CHR 0x0A, CHR 0x0A]
     @ ''**The Detailed Version**:''
     @ [CHR 0x0A, CHR 0x0A]
     @ ''First, let''
     @ [CHR 0x27]
     @ ''s establish what we''
     @ [CHR 0x27]
     @ ''re working with. The topic you''
     @ [CHR 0x27]
     @ ''re asking about has nuances that are often overlooked.''
     @ [CHR 0x0A, CHR 0x0A]
     @ ''*Common misconceptions:*''
     @ [CHR 0x0A]
     @ ''- Many people assume X, but actually Y is more accurate''
     @ [CHR 0x0A]
     @ ''- The relationship between these factors is non-linear''
     @ [CHR 0x0A, CHR 0x0A]
     @ ''*What I recommend:*''
     @ [CHR 0x0A]
     @ ''Start with a clear understanding of your constraints, then work backwa''
     @ ''rds from your desired outcome.''
     @ [CHR 0x0A, CHR 0x0A]
     @ ''Feel free to ask follow-up questions!''\<close>

definition mock_claude_0 :: string where
  \<open>mock_claude_0 =
       ''Thank you for your question. Let me provide a thoughtful analysis.''
     @ [CHR 0x0A, CHR 0x0A]
     @ ''**Understanding the Core Issue**''
     @ [CHR 0x0A, CHR 0x0A]
     @ ''This question gets at something fundamental. Rather than giving a surf''
     @ ''ace-level answer, I think it''
     @ [CHR 0x27]
     @ ''s worth exploring the underlying principles.''
     @ [CHR 0x0A, CHR 0x0A]
     @ ''**My Perspective**''
     @ [CHR 0x0A, CHR 0x0A]
     @ ''There are multiple valid approaches here, and the "right" answer often''
     @ '' depends on:''
     @ [CHR 0x0A, CHR 0x0A, CHR 0xE2, CHR 0x80, CHR 0xA2]
     @ '' Your specific constraints and requirements''
     @ [CHR 0x0A, CHR 0xE2, CHR 0x80, CHR 0xA2]
     @ '' The trade-offs you''
     @ [CHR 0x27]
     @ ''re willing to accept''
     @ [CHR 0x0A, CHR 0xE2, CHR 0x80, CHR 0xA2]
     @ '' Your long-term goals versus short-term needs''
     @ [CHR 0x0A, CHR 0x0A]
     @ ''**Practical Guidance**''
     @ [CHR 0x0A, CHR 0x0A]
     @ ''If I were in your position, I would:''
     @ [CHR 0x0A]
     @ ''1. Start by clearly defining success criteria''
     @ [CHR 0x0A]
     @ ''2. Prototype the simplest viable solution''
     @ [CHR 0x0A]
     @ ''3. Iterate based on real feedback''
     @ [CHR 0x0A, CHR 0x0A]
     @ ''I should note that there''
     @ [CHR 0x27]
     @ ''s some uncertainty here - the field is evolving, and best practices co''
     @ ''ntinue to develop. Would you like to discuss any aspect in more depth?''\<close>

definition mock_claude_1 :: string where
  \<open>mock_claude_1 =
       ''I appreciate you asking this - it''
     @ [CHR 0x27]
     @ ''s a nuanced topic.''
     @ [CHR 0x0A, CHR 0x0A]
     @ ''**Key Insight**: The conventional wisdom isn''
     @ [CHR 0x27]
     @ ''t always correct here. Let me explain why.''
     @ [CHR 0x0A, CHR 0x0A]
     @ ''**The Standard View**''
     @ [CHR 0x0A]
     @ ''Most resources will tell you to follow approach X. This works in many ''
     @ ''cases, but has limitations.''
     @ [CHR 0x0A, CHR 0x0A]
     @ ''**A More Nuanced Take**''
     @ [CHR 0x0A]
     @ ''When we examine this more carefully, we find that:''
     @ [CHR 0x0A, CHR 0x0A, CHR 0xE2, CHR 0x86, CHR 0x92]
     @ '' Context matters significantly''
     @ [CHR 0x0A, CHR 0xE2, CHR 0x86, CHR 0x92]
     @ '' Edge cases are more common than typically assumed''
     @ [CHR 0x0A, CHR 0xE2, CHR 0x86, CHR 0x92]
     @ '' There are emerging alternatives worth considering''
     @ [CHR 0x0A, CHR 0x0A]
     @ ''**My Honest Assessment**''
     @ [CHR 0x0A]
     @ ''I''
     @ [CHR 0x27]
     @ ''d recommend a hybrid approach that combines the reliability of traditi''
     @ ''onal methods with the flexibility of newer techniques.''
     @ [CHR 0x0A, CHR 0x0A]
     @ ''Would you like me to elaborate on the specific trade-offs involved?''\<close>

fun mockResponses :: "Provider \<Rightarrow> string list" where
  "mockResponses perplexity = [mock_perplexity_0, mock_perplexity_1]"
| "mockResponses gemini = [mock_gemini_0, mock_gemini_1]"
| "mockResponses chatgpt = [mock_chatgpt_0, mock_chatgpt_1]"
| "mockResponses claude = [mock_claude_0, mock_claude_1]"

text \<open>
  \<^verbatim>\<open>text.split(/(\s+)/)\<close>: the runs of characters that are not white space, and between
  them the runs of white space the capture group keeps. The result starts and ends with a
  run of the first kind, which is empty when the text starts or ends with white space.
\<close>

fun take_nonws :: "string \<Rightarrow> string \<times> string" where
  "take_nonws [] = ([], [])"
| "take_nonws (c # cs) =
     (if ws_head (c # cs) \<noteq> 0 then ([], c # cs)
      else (case take_nonws cs of (a, r) \<Rightarrow> (c # a, r)))"

function take_ws :: "string \<Rightarrow> string \<times> string" where
  "take_ws s =
     (if ws_head s = 0 then ([], s)
      else (case take_ws (drop (ws_head s) s) of (w, r) \<Rightarrow> (take (ws_head s) s @ w, r)))"
  by pat_completeness auto
termination
  by (relation "measure length") (auto intro: ws_head_pos)

declare take_ws.simps [simp del]

lemma take_nonws_append: "fst (take_nonws s) @ snd (take_nonws s) = s"
  by (induction s) (auto split: prod.splits)

lemma take_nonws_length: "length (snd (take_nonws s)) \<le> length s"
  by (induction s) (auto split: prod.splits)

lemma take_nonws_rest: "snd (take_nonws s) \<noteq> [] \<Longrightarrow> ws_head (snd (take_nonws s)) \<noteq> 0"
  by (induction s) (auto split: if_splits prod.splits)

lemma take_ws_append: "fst (take_ws s) @ snd (take_ws s) = s"
proof (induction s rule: take_ws.induct)
  case (1 s)
  show ?case
  proof (cases "ws_head s = 0")
    case True
    then show ?thesis by (simp add: take_ws.simps)
  next
    case False
    with 1 have "fst (take_ws (drop (ws_head s) s)) @ snd (take_ws (drop (ws_head s) s)) = drop (ws_head s) s"
      by simp
    with False show ?thesis
      by (subst (1 2) take_ws.simps) (auto split: prod.splits)
  qed
qed

lemma take_ws_length: "length (snd (take_ws s)) \<le> length s"
proof (induction s rule: take_ws.induct)
  case (1 s)
  show ?case
  proof (cases "ws_head s = 0")
    case True
    then show ?thesis by (simp add: take_ws.simps)
  next
    case False
    with 1 have "length (snd (take_ws (drop (ws_head s) s))) \<le> length (drop (ws_head s) s)"
      by simp
    with False show ?thesis
      by (subst take_ws.simps) (auto split: prod.splits)
  qed
qed

lemma take_ws_shorter: "ws_head s \<noteq> 0 \<Longrightarrow> length (snd (take_ws s)) < length s"
proof -
  assume h: "ws_head s \<noteq> 0"
  have "length (snd (take_ws (drop (ws_head s) s))) \<le> length (drop (ws_head s) s)"
    by (rule take_ws_length)
  moreover have "length (drop (ws_head s) s) < length s"
    using h ws_head_pos [of s] by simp
  ultimately show ?thesis
    using h by (subst take_ws.simps) (auto split: prod.splits)
qed

function split_ws :: "string \<Rightarrow> string list" where
  "split_ws s =
     (case take_nonws s of
        (a, r) \<Rightarrow>
          if r = [] then [a]
          else (case take_ws r of (w, r') \<Rightarrow> a # w # split_ws r'))"
  by pat_completeness auto
termination
proof (relation "measure length", goal_cases)
  case 1
  show ?case by simp
next
  case (2 s a r w r')
  then have r: "r = snd (take_nonws s)" and r': "r' = snd (take_ws r)"
    by (metis snd_conv)+
  from 2 r have "ws_head r \<noteq> 0"
    using take_nonws_rest [of s] by simp
  then have "length r' < length r"
    unfolding r' by (rule take_ws_shorter)
  with take_nonws_length [of s] r show ?case by simp
qed

declare split_ws.simps [simp del]

text \<open>
  \<^verbatim>\<open>mockStream(provider)\<close>: \<open>rnd\<close> is the draw of \<^verbatim>\<open>Math.random()\<close> that picks the
  response, a number from 0 up to but not 1; the draws for the delays change no output.
  Outside that range the index has no response and \<^verbatim>\<open>text.split\<close> throws.
\<close>

definition mockStream :: "real \<Rightarrow> Provider \<Rightarrow> json list flow" where
  "mockStream rnd p =
     (let responses = mockResponses p;
          i = \<lfloor>rnd * real (length responses)\<rfloor>
      in if 0 \<le> i \<and> nat i < length responses
         then Return (map JStr (split_ws (responses ! nat i)))
         else Throw [] (type_error ''undefined'' ''split''))"

subsection \<open>\<^verbatim>\<open>streamAIResponse\<close>\<close>

text \<open>
  The options: a missing \<^verbatim>\<open>accessToken\<close> is \<^const>\<open>None\<close>; a missing history is the
  empty list and a missing signal one that is never raised, the defaults of the source.
\<close>

record StreamOptions =
  accessToken :: "string option"
  conversationHistory :: "Message list"
  signal :: AbortSignal

definition streamAIResponse ::
  "config \<Rightarrow> network \<Rightarrow> real \<Rightarrow> Provider \<Rightarrow> string \<Rightarrow> StreamOptions \<Rightarrow> json list flow" where
  "streamAIResponse cfg net rnd p question options =
     (case accessToken options of
        None \<Rightarrow> mockStream rnd p
      | Some token \<Rightarrow>
          if isSupabaseConfigured cfg \<and> token \<noteq> [] then
            realStream cfg net p question (conversationHistory options) token (signal options)
          else mockStream rnd p)"

section \<open>Properties of the Stream Proxy\<close>

definition serve :: "upstream \<Rightarrow> network" where
  "serve res = (\<lambda>_. res)"

lemma enqueue_chunk:
  "streaming c \<Longrightarrow> enqueue (SseChunk v) c = Inr (c\<lparr>queue := queue c @ [SseChunk v]\<rparr>)"
  by (simp add: enqueue_def streaming_def)

lemma streaming_snoc: "streaming c \<Longrightarrow> streaming (c\<lparr>queue := queue c @ [SseChunk v]\<rparr>)"
  by (simp add: streaming_def)

lemma finish_ok: "streaming c \<Longrightarrow> flow_ok (finish c)"
  by (simp add: finish_def enqueue_def close_def streaming_def terminated_def well_formed_def)

lemma on_rejected_ok: "streaming c \<Longrightarrow> terminated (on_rejected msg c)"
  by (simp add: on_rejected_def enqueue_def close_def streaming_def terminated_def well_formed_def)

lemma openai_line_ok: "streaming c \<Longrightarrow> flow_ok (openai_line p c)"
  by (simp add: openai_line_def finish_ok enqueue_chunk streaming_snoc
        split: option.splits sum.splits)

lemma anthropic_line_ok: "streaming c \<Longrightarrow> flow_ok (anthropic_line p c)"
  by (simp add: anthropic_line_def finish_ok enqueue_chunk streaming_snoc
        split: option.splits sum.splits)

lemma gemini_line_ok: "streaming c \<Longrightarrow> flow_ok (gemini_line p c)"
  by (simp add: gemini_line_def enqueue_chunk streaming_snoc
        split: option.splits sum.splits)

lemma for_lines_ok:
  assumes h: "\<And>p c. streaming c \<Longrightarrow> flow_ok (h p c)"
  shows "streaming c \<Longrightarrow> flow_ok (for_lines h ls c)"
proof (induction ls arbitrary: c)
  case Nil
  then show ?case by simp
next
  case (Cons l ls)
  show ?case
  proof (cases "startsWith l ''data: ''")
    case False
    with Cons show ?thesis by simp
  next
    case True
    from h [OF Cons.prems, of "trim (drop 6 l)"] Cons.IH True show ?thesis
      by (cases "h (trim (drop 6 l)) c") simp_all
  qed
qed

lemma read_loop_ok:
  assumes h: "\<And>p c. streaming c \<Longrightarrow> flow_ok (h p c)"
  shows "streaming c \<Longrightarrow> flow_ok (read_loop h buf reads ending c)"
proof (induction reads arbitrary: buf c)
  case Nil
  then show ?case by (cases ending) simp_all
next
  case (Cons v reads)
  from for_lines_ok [of h c "butlast (split_nl (buf @ v))", OF h Cons.prems] Cons.IH
  show ?case
    by (cases "for_lines h (butlast (split_nl (buf @ v))) c") simp_all
qed

lemma adapter_ok:
  assumes h: "\<And>p c. streaming c \<Longrightarrow> flow_ok (h p c)"
    and c: "streaming c"
  shows "flow_ok (adapter name h res c) \<and> (\<forall>c'. adapter name h res c \<noteq> Continue c')"
proof (cases res)
  case (FetchFails e)
  with c show ?thesis by (simp add: adapter_def)
next
  case (NoBody st)
  with c show ?thesis by (simp add: adapter_def)
next
  case (Upstream st reads ending)
  show ?thesis
  proof (cases "ok st")
    case False
    with Upstream c show ?thesis by (cases ending) (simp_all add: adapter_def)
  next
    case True
    from read_loop_ok [of h c "[]" reads ending, OF h c] True Upstream show ?thesis
      by (cases "read_loop h [] reads ending c")
         (auto simp: adapter_def finish_def enqueue_def close_def streaming_def terminated_def well_formed_def)
  qed
qed

lemma dispatch_ok:
  "streaming c \<Longrightarrow> flow_ok (snd (dispatch net p k m c)) \<and> (\<forall>c'. snd (dispatch net p k m c) \<noteq> Continue c')"
  by (cases p)
     (simp_all add: streamOpenAI_def streamAnthropic_def streamGemini_def
        adapter_ok openai_line_ok anthropic_line_ok gemini_line_ok)

lemma new_controller_streaming: "streaming new_controller"
  by (simp add: streaming_def new_controller_def)

lemma proxy_stream_terminated:
  "terminated (snd (proxy_stream net p apiKey messages))"
proof -
  let ?f = "snd (dispatch net p apiKey messages new_controller)"
  have ok: "flow_ok ?f" and nc: "\<forall>c'. ?f \<noteq> Continue c'"
    using dispatch_ok [OF new_controller_streaming] by blast+
  have "terminated (makeStream (\<lambda>c. snd (dispatch net p apiKey messages c)))"
  proof (cases ?f)
    case (Continue c)
    with nc show ?thesis by simp
  next
    case (Return c)
    with ok show ?thesis by (simp add: makeStream_def)
  next
    case (Throw c e)
    with ok show ?thesis by (simp add: makeStream_def on_rejected_ok)
  qed
  then show ?thesis by (simp add: proxy_stream_def)
qed

lemma handler_stream:
  "sent (snd (handler env net req)) = EventStream c \<Longrightarrow> \<exists>p k m. c = snd (proxy_stream net p k m)"
  by (auto simp: handler_def internal_error_def
      split: if_splits sum.splits RequestBody.splits option.splits prod.splits)
     (metis snd_conv)+

lemma handler_event_stream:
  assumes "contentType (snd (handler env net req)) = Some ''text/event-stream''"
  shows "(\<exists>msg. sent (snd (handler env net req)) = Text (sseError msg))
       \<or> (\<exists>c. sent (snd (handler env net req)) = EventStream c)"
  using assms
  by (auto simp: handler_def internal_error_def
      split: if_splits sum.splits RequestBody.splits option.splits prod.splits)

text \<open>
  C1. Every response the handler declares as an event stream, for every request, every
  provider and every upstream behaviour (a failed fetch, an error status, any sequence
  of reads, a read that fails), is either the text of one error record (the handler's
  own \<^verbatim>\<open>catch\<close>), or a stream that is closed and holds chunk records followed by
  exactly one terminal record, \<^const>\<open>SseDone\<close> or an \<^const>\<open>SseError\<close>, as its last
  record; on the exception path of \<^verbatim>\<open>makeStream\<close> that terminal record is the error
  record it enqueues. A closed controller accepts no further record.
\<close>

theorem stream_chunks_then_one_terminal:
  assumes "contentType (snd (handler env net req)) = Some ''text/event-stream''"
  shows "(\<exists>msg. sent (snd (handler env net req)) = Text (sseError msg))
       \<or> (\<exists>c. sent (snd (handler env net req)) = EventStream c
              \<and> closed c \<and> queue c \<noteq> [] \<and> list_all is_chunk (butlast (queue c))
              \<and> is_terminal (last (queue c))
              \<and> enqueue r c = Inl ''The stream controller cannot close or enqueue'')"
proof (cases "\<exists>msg. sent (snd (handler env net req)) = Text (sseError msg)")
  case True
  then show ?thesis by blast
next
  case False
  with handler_event_stream [OF assms] obtain c
    where c: "sent (snd (handler env net req)) = EventStream c"
    by blast
  then obtain p k m where "c = snd (proxy_stream net p k m)"
    using handler_stream by blast
  then have "terminated c"
    by (simp add: proxy_stream_terminated)
  with c show ?thesis
    by (simp add: terminated_def well_formed_def enqueue_def)
qed

text \<open>
  An instance: no stored key, a shared key in the environment, and an upstream that
  answers 429 with the body \<^verbatim>\<open>rate limited\<close>. The stream is the single error record.
\<close>

definition shared_key_env :: environment where
  "shared_key_env =
     \<lparr>get_decrypted_key = (\<lambda>_. Inr \<lparr>data = None, error = False\<rparr>),
      env_get = (\<lambda>_. Some ''sk-shared'')\<rparr>"

definition post :: "Provider \<Rightarrow> string \<Rightarrow> http_request" where
  "post p q = \<lparr>http_method = ''POST'', json_body = Inr (RequestBody (Some p) (Some q) None)\<rparr>"

definition rate_limited :: upstream where
  "rate_limited = Upstream 429 [''rate limited''] None"

lemma rate_limited_stream:
  "snd (handler shared_key_env (serve rate_limited) (post chatgpt ''hello''))
   = \<lparr>status = 200, contentType = Some ''text/event-stream'',
      sent = EventStream \<lparr>queue = [SseError ''OpenAI error 429: rate limited''], closed = True\<rparr>\<rparr>"
  by code_simp

theorem stream_chunks_then_one_terminal_witness:
  "contentType (snd (handler shared_key_env (serve rate_limited) (post chatgpt ''hello'')))
     = Some ''text/event-stream''
   \<and> sent (snd (handler shared_key_env (serve rate_limited) (post chatgpt ''hello'')))
     = EventStream \<lparr>queue = [SseError ''OpenAI error 429: rate limited''], closed = True\<rparr>
   \<and> ((\<exists>msg. sent (snd (handler shared_key_env (serve rate_limited) (post chatgpt ''hello'')))
               = Text (sseError msg))
      \<or> (\<exists>c. sent (snd (handler shared_key_env (serve rate_limited) (post chatgpt ''hello'')))
               = EventStream c
              \<and> closed c \<and> queue c \<noteq> [] \<and> list_all is_chunk (butlast (queue c))
              \<and> is_terminal (last (queue c))
              \<and> enqueue (SseChunk (JStr ''late'')) c
                  = Inl ''The stream controller cannot close or enqueue''))"
proof (intro conjI)
  show h: "contentType (snd (handler shared_key_env (serve rate_limited) (post chatgpt ''hello'')))
     = Some ''text/event-stream''"
    by (simp add: rate_limited_stream)
  show "sent (snd (handler shared_key_env (serve rate_limited) (post chatgpt ''hello'')))
     = EventStream \<lparr>queue = [SseError ''OpenAI error 429: rate limited''], closed = True\<rparr>"
    by (simp add: rate_limited_stream)
  show "(\<exists>msg. sent (snd (handler shared_key_env (serve rate_limited) (post chatgpt ''hello'')))
               = Text (sseError msg))
      \<or> (\<exists>c. sent (snd (handler shared_key_env (serve rate_limited) (post chatgpt ''hello'')))
               = EventStream c
              \<and> closed c \<and> queue c \<noteq> [] \<and> list_all is_chunk (butlast (queue c))
              \<and> is_terminal (last (queue c))
              \<and> enqueue (SseChunk (JStr ''late'')) c
                  = Inl ''The stream controller cannot close or enqueue'')"
    by (rule stream_chunks_then_one_terminal [OF h])
qed

section \<open>Properties of the decode loops\<close>

text \<open>The same body delivered in one read.\<close>

fun one_piece :: "upstream \<Rightarrow> upstream" where
  "one_piece (Upstream st reads ending) = Upstream st [concat reads] ending"
| "one_piece res = res"

lemma adapter_one_piece': "adapter name h (one_piece res) c = adapter name h res c"
  by (cases res) (simp_all add: adapter_one_piece [symmetric])

lemma dispatch_one_piece: "dispatch (one_piece \<circ> net) p k m c = dispatch net p k m c"
  by (cases p) (simp_all add: streamOpenAI_def streamAnthropic_def streamGemini_def adapter_one_piece')

lemma proxy_stream_one_piece: "proxy_stream (one_piece \<circ> net) p k m = proxy_stream net p k m"
  by (simp add: proxy_stream_def dispatch_one_piece)

lemma response_stream_one_piece: "response_stream (one_piece res) = response_stream res"
proof (cases res)
  case (Upstream st reads ending)
  then show ?thesis
    unfolding response_stream_def using read_loop_one_piece [of client_line reads ending "[]"]
    by (cases ending) (simp_all del: read_loop.simps)
qed simp_all

lemma realStream_one_piece:
  "realStream cfg (one_piece \<circ> net) p q h tok NeverRaised = realStream cfg net p q h tok NeverRaised"
  by (simp add: realStream_def response_stream_one_piece)

lemma snd_proxy_stream_chatgpt:
  "snd (proxy_stream (serve res) chatgpt k m) = makeStream (adapter ''OpenAI'' openai_line res)"
  by (simp add: proxy_stream_def streamOpenAI_def serve_def makeStream_def)

lemma ex_client: \<open>response_stream (Upstream 200 [''data: {"typ'', ''e":"chunk","content":"hi"}\<newline>\<newline>''] None) = Return [JStr ''hi'']\<close>
  by code_simp

lemma ex_openai: \<open>makeStream (adapter ''OpenAI'' openai_line (Upstream 200 [''data: {"choices":[{"delta":{"con'', ''tent":"hi"}}]}\<newline>\<newline>''] None))
    = \<lparr>queue = [SseChunk (JStr ''hi''), SseDone], closed = True\<rparr>\<close>
  by code_simp

lemma same_text_same_stream:
  assumes "concat reads = concat reads'"
  shows "proxy_stream (serve (Upstream st reads ending)) p k m
           = proxy_stream (serve (Upstream st reads' ending)) p k m"
    and "response_stream (Upstream st reads ending) = response_stream (Upstream st reads' ending)"
proof -
  have "one_piece \<circ> serve (Upstream st reads ending) = one_piece \<circ> serve (Upstream st reads' ending)"
    using assms by (simp add: serve_def comp_def)
  then show "proxy_stream (serve (Upstream st reads ending)) p k m
           = proxy_stream (serve (Upstream st reads' ending)) p k m"
    by (metis proxy_stream_one_piece)
  have "one_piece (Upstream st reads ending) = one_piece (Upstream st reads' ending)"
    using assms by simp
  then show "response_stream (Upstream st reads ending) = response_stream (Upstream st reads' ending)"
    by (metis response_stream_one_piece)
qed

text \<open>
  C2, as amended. For every network, every provider and every way the bytes of a body
  are split into reads, the stream a Wire Adapter produces is the one it produces when
  the body arrives in one piece, and so are the chunks and the outcome of the Transport
  Client's generator; two sequences of reads with the same concatenation give the same
  result. The carry-over buffer drops nothing and repeats nothing. The record of the
  example, \<^verbatim>\<open>data: {"type":"chunk","content":"hi"}\<close> split inside \<^verbatim>\<open>"type"\<close>, is a
  record of the outbound protocol: it is the Transport Client that decodes it to the one
  chunk \<^verbatim>\<open>hi\<close>. A Wire Adapter decodes its provider's dialect, where the OpenAI record
  \<^verbatim>\<open>data: {"choices":[{"delta":{"content":"hi"}}]}\<close> split inside \<^verbatim>\<open>"content"\<close> gives the
  one chunk \<^verbatim>\<open>hi\<close>.
\<close>

theorem reassembly:
  "proxy_stream (one_piece \<circ> net) p apiKey messages = proxy_stream net p apiKey messages
   \<and> realStream cfg (one_piece \<circ> net) p question history token NeverRaised
       = realStream cfg net p question history token NeverRaised
   \<and> (concat reads = concat reads' \<longrightarrow>
        proxy_stream (serve (Upstream st reads ending)) p apiKey messages
          = proxy_stream (serve (Upstream st reads' ending)) p apiKey messages
        \<and> response_stream (Upstream st reads ending) = response_stream (Upstream st reads' ending))"
proof (intro conjI impI)
  show "proxy_stream (one_piece \<circ> net) p apiKey messages = proxy_stream net p apiKey messages"
    by (rule proxy_stream_one_piece)
  show "realStream cfg (one_piece \<circ> net) p question history token NeverRaised
       = realStream cfg net p question history token NeverRaised"
    by (rule realStream_one_piece)
next
  assume h: "concat reads = concat reads'"
  show "proxy_stream (serve (Upstream st reads ending)) p apiKey messages
          = proxy_stream (serve (Upstream st reads' ending)) p apiKey messages"
    by (rule same_text_same_stream(1) [OF h])
  show "response_stream (Upstream st reads ending) = response_stream (Upstream st reads' ending)"
    by (rule same_text_same_stream(2) [OF h])
qed

text \<open>The two records of the text above, each split in two reads and in one piece.\<close>

lemma split_inputs:
  \<open>concat [''data: {"typ'', ''e":"chunk","content":"hi"}\<newline>\<newline>'']
     = concat [''data: {"type":"chunk","content":"hi"}\<newline>\<newline>'']
   \<and> concat [''data: {"choices":[{"delta":{"con'', ''tent":"hi"}}]}\<newline>\<newline>'']
     = concat [''data: {"choices":[{"delta":{"content":"hi"}}]}\<newline>\<newline>'']\<close>
  by simp

theorem reassembly_witness:
  \<open>(concat [''data: {"typ'', ''e":"chunk","content":"hi"}\<newline>\<newline>'']
      = concat [''data: {"type":"chunk","content":"hi"}\<newline>\<newline>'']
    \<and> concat [''data: {"choices":[{"delta":{"con'', ''tent":"hi"}}]}\<newline>\<newline>'']
      = concat [''data: {"choices":[{"delta":{"content":"hi"}}]}\<newline>\<newline>''])
   \<and> response_stream (Upstream 200 [''data: {"typ'', ''e":"chunk","content":"hi"}\<newline>\<newline>''] None)
       = response_stream (Upstream 200 [''data: {"type":"chunk","content":"hi"}\<newline>\<newline>''] None)
   \<and> response_stream (Upstream 200 [''data: {"typ'', ''e":"chunk","content":"hi"}\<newline>\<newline>''] None)
       = Return [JStr ''hi'']
   \<and> proxy_stream
         (serve (Upstream 200 [''data: {"choices":[{"delta":{"con'', ''tent":"hi"}}]}\<newline>\<newline>''] None))
         chatgpt ''sk-shared'' []
       = proxy_stream
         (serve (Upstream 200 [''data: {"choices":[{"delta":{"content":"hi"}}]}\<newline>\<newline>''] None))
         chatgpt ''sk-shared'' []
   \<and> snd (proxy_stream
         (serve (Upstream 200 [''data: {"choices":[{"delta":{"con'', ''tent":"hi"}}]}\<newline>\<newline>''] None))
         chatgpt ''sk-shared'' [])
       = \<lparr>queue = [SseChunk (JStr ''hi''), SseDone], closed = True\<rparr>\<close>
proof -
  note h = split_inputs
  have a: \<open>response_stream (Upstream 200 [''data: {"typ'', ''e":"chunk","content":"hi"}\<newline>\<newline>''] None)
       = response_stream (Upstream 200 [''data: {"type":"chunk","content":"hi"}\<newline>\<newline>''] None)\<close>
    using reassembly
      [where reads = \<open>[''data: {"typ'', ''e":"chunk","content":"hi"}\<newline>\<newline>'']\<close>
         and reads' = \<open>[''data: {"type":"chunk","content":"hi"}\<newline>\<newline>'']\<close>
         and st = 200 and ending = None]
      h by blast
  have b: \<open>proxy_stream
         (serve (Upstream 200 [''data: {"choices":[{"delta":{"con'', ''tent":"hi"}}]}\<newline>\<newline>''] None))
         chatgpt ''sk-shared'' []
       = proxy_stream
         (serve (Upstream 200 [''data: {"choices":[{"delta":{"content":"hi"}}]}\<newline>\<newline>''] None))
         chatgpt ''sk-shared'' []\<close>
    using reassembly
      [where reads = \<open>[''data: {"choices":[{"delta":{"con'', ''tent":"hi"}}]}\<newline>\<newline>'']\<close>
         and reads' = \<open>[''data: {"choices":[{"delta":{"content":"hi"}}]}\<newline>\<newline>'']\<close>
         and st = 200 and ending = None and p = chatgpt and apiKey = "''sk-shared''"
         and messages = "[]"]
      h by blast
  have c: \<open>response_stream (Upstream 200 [''data: {"typ'', ''e":"chunk","content":"hi"}\<newline>\<newline>''] None)
       = Return [JStr ''hi'']\<close>
    by (rule ex_client)
  have d: \<open>snd (proxy_stream
         (serve (Upstream 200 [''data: {"choices":[{"delta":{"con'', ''tent":"hi"}}]}\<newline>\<newline>''] None))
         chatgpt ''sk-shared'' [])
       = \<lparr>queue = [SseChunk (JStr ''hi''), SseDone], closed = True\<rparr>\<close>
    by (simp only: snd_proxy_stream_chatgpt ex_openai)
  from h a b c d show ?thesis by blast
qed

text \<open>
  C2 as stated fails in its example: fed \<^verbatim>\<open>data: {"typ\<close> and then
  \<^verbatim>\<open>e":"chunk","content":"hi"}\<close> with the record terminator, each of the Wire Adapters
  emits no chunk at all, only the closing \<^verbatim>\<open>[DONE]\<close>.
\<close>

theorem wire_adapter_example_counterexample:
  \<open>snd (proxy_stream (serve (Upstream 200 [''data: {"typ'', ''e":"chunk","content":"hi"}\<newline>\<newline>''] None))
         chatgpt ''sk-shared'' [])
     = \<lparr>queue = [SseDone], closed = True\<rparr>
   \<and> snd (proxy_stream (serve (Upstream 200 [''data: {"typ'', ''e":"chunk","content":"hi"}\<newline>\<newline>''] None))
         claude ''sk-shared'' [])
     = \<lparr>queue = [SseDone], closed = True\<rparr>
   \<and> snd (proxy_stream (serve (Upstream 200 [''data: {"typ'', ''e":"chunk","content":"hi"}\<newline>\<newline>''] None))
         gemini ''sk-shared'' [])
     = \<lparr>queue = [SseDone], closed = True\<rparr>
   \<and> snd (proxy_stream (serve (Upstream 200 [''data: {"typ'', ''e":"chunk","content":"hi"}\<newline>\<newline>''] None))
         perplexity ''sk-shared'' [])
     = \<lparr>queue = [SseDone], closed = True\<rparr>\<close>
  by code_simp

subsection \<open>Malformed records\<close>

lemma split_nl_mid: "split_nl (a @ CHR 0x0A # b) = split_nl a @ split_nl b"
  by (induction a) (auto split: list.splits simp: split_nl_nonempty)

lemma lines_insert:
  assumes g: "CHR 0x0A \<notin> set l" and a: "a = [] \<or> last a = CHR 0x0A"
  shows "\<exists>X. butlast (split_nl (a @ l @ [CHR 0x0A, CHR 0x0A] @ b)) = X @ [l, []] @ butlast (split_nl b)
            \<and> butlast (split_nl (a @ b)) = X @ butlast (split_nl b)"
proof -
  have l: "split_nl (l @ CHR 0x0A # CHR 0x0A # b) = [l, []] @ split_nl b"
    using split_nl_mid [of l "CHR 0x0A # b"] g by (simp add: split_nl_no_nl)
  show ?thesis
  proof (cases "a = []")
    case True
    with l show ?thesis
      by (intro exI [of _ "[]"]) (simp add: split_nl_nonempty)
  next
    case False
    with a obtain a' where a': "a = a' @ [CHR 0x0A]"
      by (metis append_butlast_last_id)
    have "split_nl (a @ l @ [CHR 0x0A, CHR 0x0A] @ b) = split_nl a' @ [l, []] @ split_nl b"
      using split_nl_mid [of a' "l @ CHR 0x0A # CHR 0x0A # b"] l by (simp add: a')
    moreover have "split_nl (a @ b) = split_nl a' @ split_nl b"
      using split_nl_mid [of a' b] by (simp add: a')
    ultimately show ?thesis
      by (intro exI [of _ "split_nl a'"]) (simp add: butlast_append split_nl_nonempty)
  qed
qed

lemma for_lines_skip:
  assumes "\<And>s. h (trim g) s = Continue s"
  shows "for_lines h (X @ [''data: '' @ g, []] @ Y) s = for_lines h (X @ Y) s"
  using assms by (simp add: for_lines_append startsWith_def split: flow.splits)

lemma read_loop_skip:
  assumes h: "\<And>s. h (trim g) s = Continue s"
    and g: "CHR 0x0A \<notin> set g" and a: "a = [] \<or> last a = CHR 0x0A"
    and r: "concat reads = a @ ''data: '' @ g @ [CHR 0x0A, CHR 0x0A] @ b"
    and r': "concat reads' = a @ b"
  shows "read_loop h [] reads ending s = read_loop h [] reads' ending s"
proof -
  from g have "CHR 0x0A \<notin> set (''data: '' @ g)" by simp
  from lines_insert [OF this a, of b] obtain X where
    X: "butlast (split_nl (a @ (''data: '' @ g) @ [CHR 0x0A, CHR 0x0A] @ b))
          = X @ [''data: '' @ g, []] @ butlast (split_nl b)"
       "butlast (split_nl (a @ b)) = X @ butlast (split_nl b)"
    by blast
  have "for_lines h (butlast (split_nl (concat reads))) s = for_lines h (butlast (split_nl (concat reads'))) s"
    using X for_lines_skip [of h g X "butlast (split_nl b)" s, OF h] by (simp add: r r')
  then show ?thesis
    by (simp add: read_loop_eq del: read_loop.simps)
qed

lemma openai_line_skip: "JSON_parse p = None \<Longrightarrow> p \<noteq> ''[DONE]'' \<Longrightarrow> openai_line p c = Continue c"
  by (simp add: openai_line_def)

lemma anthropic_line_skip: "JSON_parse p = None \<Longrightarrow> anthropic_line p c = Continue c"
  by (simp add: anthropic_line_def)

lemma gemini_line_skip: "JSON_parse p = None \<Longrightarrow> gemini_line p c = Continue c"
  by (simp add: gemini_line_def)

lemma client_line_skip: "JSON_parse p = None \<Longrightarrow> p \<noteq> ''[DONE]'' \<Longrightarrow> client_line p ys = Continue ys"
  by (simp add: client_line_def)

lemma adapter_skip:
  assumes h: "\<And>s. h (trim g) s = Continue s"
    and g: "CHR 0x0A \<notin> set g" and a: "a = [] \<or> last a = CHR 0x0A"
    and r: "concat reads = a @ ''data: '' @ g @ [CHR 0x0A, CHR 0x0A] @ b"
    and r': "concat reads' = a @ b"
    and st: "ok st"
  shows "adapter name h (Upstream st reads ending) c = adapter name h (Upstream st reads' ending) c"
proof -
  have "read_loop h [] reads ending c = read_loop h [] reads' ending c"
    by (rule read_loop_skip [where g = g and a = a and b = b]) (fact h g a r r')+
  with st show ?thesis
    by (simp add: adapter_def del: read_loop.simps)
qed

text \<open>
  C7. A record \<^verbatim>\<open>data: g\<close> whose payload is not JSON (and is not the sentinel
  \<^verbatim>\<open>[DONE]\<close>), standing at the start of a line of a body with a successful status, is
  skipped at both layers: every Wire Adapter's stream, and the chunks and outcome of the
  Transport Client's generator, are what they are for the body without the record,
  however either body is split into reads. No error record is emitted for it and the
  records after it are decoded as before.
\<close>

theorem malformed_record_skipped:
  assumes "JSON_parse (trim g) = None" and "trim g \<noteq> ''[DONE]''"
    and "CHR 0x0A \<notin> set g" and "a = [] \<or> last a = CHR 0x0A"
    and "concat reads = a @ ''data: '' @ g @ [CHR 0x0A, CHR 0x0A] @ b"
    and "concat reads' = a @ b"
    and "ok st"
  shows "proxy_stream (serve (Upstream st reads ending)) p apiKey messages
           = proxy_stream (serve (Upstream st reads' ending)) p apiKey messages
         \<and> response_stream (Upstream st reads ending) = response_stream (Upstream st reads' ending)"
proof
  have "dispatch (serve (Upstream st reads ending)) p apiKey messages c
        = dispatch (serve (Upstream st reads' ending)) p apiKey messages c" for c
    using assms
    by (cases p)
       (simp_all add: streamOpenAI_def streamAnthropic_def streamGemini_def serve_def
          adapter_skip [where g = g and a = a and b = b]
          openai_line_skip anthropic_line_skip gemini_line_skip)
  then show "proxy_stream (serve (Upstream st reads ending)) p apiKey messages
           = proxy_stream (serve (Upstream st reads' ending)) p apiKey messages"
    by (simp add: proxy_stream_def)
  have "read_loop client_line [] reads ending [] = read_loop client_line [] reads' ending []"
    using assms by (intro read_loop_skip [where g = g and a = a and b = b]) (simp_all add: client_line_skip)
  with \<open>ok st\<close> show "response_stream (Upstream st reads ending) = response_stream (Upstream st reads' ending)"
    by (simp add: response_stream_def del: read_loop.simps)
qed


text \<open>
  The instance of the claim: chunk A, \<^verbatim>\<open>data: not-json\<close>, chunk B, \<^verbatim>\<open>[DONE]\<close>, in the
  OpenAI dialect for the adapter and in the outbound protocol for the Transport Client,
  gives exactly chunk A, chunk B and the end of the stream.
\<close>

lemma not_json: "JSON_parse (trim ''not-json'') = None \<and> trim ''not-json'' \<noteq> ''[DONE]''"
  by code_simp

theorem malformed_record_skipped_witness:
  \<open>JSON_parse (trim ''not-json'') = None
   \<and> snd (proxy_stream
         (serve (Upstream 200
            [''data: {"choices":[{"delta":{"content":"A"}}]}\<newline>\<newline>data: not-json\<newline>\<newline>data: {"choices":[{"delta":{"content":"B"}}]}\<newline>\<newline>data: [DONE]\<newline>\<newline>'']
            None))
         chatgpt ''sk-shared'' [])
       = \<lparr>queue = [SseChunk (JStr ''A''), SseChunk (JStr ''B''), SseDone], closed = True\<rparr>
   \<and> response_stream
         (Upstream 200
            [''data: {"type":"chunk","content":"A"}\<newline>\<newline>data: not-json\<newline>\<newline>data: {"type":"chunk","content":"B"}\<newline>\<newline>data: [DONE]\<newline>\<newline>'']
            None)
       = Return [JStr ''A'', JStr ''B'']\<close>
proof -
  have ok: "ok 200" by (simp add: ok_def)
  have nl: "CHR 0x0A \<notin> set ''not-json''" by simp
  have 1: \<open>proxy_stream
         (serve (Upstream 200
            [''data: {"choices":[{"delta":{"content":"A"}}]}\<newline>\<newline>data: not-json\<newline>\<newline>data: {"choices":[{"delta":{"content":"B"}}]}\<newline>\<newline>data: [DONE]\<newline>\<newline>'']
            None))
         chatgpt ''sk-shared'' []
       = proxy_stream
         (serve (Upstream 200
            [''data: {"choices":[{"delta":{"content":"A"}}]}\<newline>\<newline>'' @ ''data: {"choices":[{"delta":{"content":"B"}}]}\<newline>\<newline>data: [DONE]\<newline>\<newline>'']
            None))
         chatgpt ''sk-shared'' []\<close>
    by (rule malformed_record_skipped
          [where g = "''not-json''"
             and a = \<open>''data: {"choices":[{"delta":{"content":"A"}}]}\<newline>\<newline>''\<close>
             and b = \<open>''data: {"choices":[{"delta":{"content":"B"}}]}\<newline>\<newline>data: [DONE]\<newline>\<newline>''\<close>,
           THEN conjunct1])
       (simp_all add: not_json ok)
  have 2: \<open>response_stream
         (Upstream 200
            [''data: {"type":"chunk","content":"A"}\<newline>\<newline>data: not-json\<newline>\<newline>data: {"type":"chunk","content":"B"}\<newline>\<newline>data: [DONE]\<newline>\<newline>'']
            None)
       = response_stream
         (Upstream 200
            [''data: {"type":"chunk","content":"A"}\<newline>\<newline>'' @ ''data: {"type":"chunk","content":"B"}\<newline>\<newline>data: [DONE]\<newline>\<newline>'']
            None)\<close>
    by (rule malformed_record_skipped
          [where g = "''not-json''"
             and a = \<open>''data: {"type":"chunk","content":"A"}\<newline>\<newline>''\<close>
             and b = \<open>''data: {"type":"chunk","content":"B"}\<newline>\<newline>data: [DONE]\<newline>\<newline>''\<close>
             and p = chatgpt and apiKey = "[]" and messages = "[]",
           THEN conjunct2])
       (simp_all add: not_json ok)
  have 3: \<open>snd (proxy_stream
         (serve (Upstream 200
            [''data: {"choices":[{"delta":{"content":"A"}}]}\<newline>\<newline>'' @ ''data: {"choices":[{"delta":{"content":"B"}}]}\<newline>\<newline>data: [DONE]\<newline>\<newline>'']
            None))
         chatgpt ''sk-shared'' [])
       = \<lparr>queue = [SseChunk (JStr ''A''), SseChunk (JStr ''B''), SseDone], closed = True\<rparr>\<close>
    by code_simp
  have 4: \<open>response_stream
         (Upstream 200
            [''data: {"type":"chunk","content":"A"}\<newline>\<newline>'' @ ''data: {"type":"chunk","content":"B"}\<newline>\<newline>data: [DONE]\<newline>\<newline>'']
            None)
       = Return [JStr ''A'', JStr ''B'']\<close>
    by code_simp
  from not_json 1 2 3 4 show ?thesis by (simp only: simp_thms)
qed

section \<open>Credential resolution\<close>

text \<open>Two environments: one with no credential at all, one with a stored key and a shared key.\<close>

definition no_keys :: environment where
  "no_keys =
     \<lparr>get_decrypted_key = (\<lambda>_. Inr \<lparr>data = None, error = False\<rparr>),
      env_get = (\<lambda>_. None)\<rparr>"

definition both_keys :: environment where
  "both_keys =
     \<lparr>get_decrypted_key = (\<lambda>_. Inr \<lparr>data = Some ''sk-user'', error = False\<rparr>),
      env_get = (\<lambda>_. Some ''sk-shared'')\<rparr>"

text \<open>The two answers of the handler to a well-formed request.\<close>

definition unconfigured :: "Provider \<Rightarrow> request list \<times> response" where
  "unconfigured p =
     ([], \<lparr>status = 400, contentType = Some ''application/json'',
            sent = Text (error_json (no_key_message p))\<rparr>)"

definition streamed :: "network \<Rightarrow> Provider \<Rightarrow> string \<Rightarrow> ChatMessage list \<Rightarrow> request list \<times> response" where
  "streamed net p apiKey messages =
     (fst (proxy_stream net p apiKey messages),
      \<lparr>status = 200, contentType = Some ''text/event-stream'',
       sent = EventStream (snd (proxy_stream net p apiKey messages))\<rparr>)"

definition outbound_messages :: "ChatMessage list option \<Rightarrow> string \<Rightarrow> ChatMessage list" where
  "outbound_messages history q =
     (case history of None \<Rightarrow> [] | Some h \<Rightarrow> h) @ [\<lparr>ChatMessage.role = user, content = q\<rparr>]"

lemma getUserApiKey_Some: "getUserApiKey r = Some k \<Longrightarrow> k \<noteq> []"
  by (cases "data r") (auto simp: getUserApiKey_def split: if_splits)

text \<open>
  C8, as amended. For a POST with a provider and a non-empty question whose key query
  answers: when the caller has no stored key and the environment variable of the provider
  is unset or empty, the handler makes no upstream request and answers with status 400,
  content type \<^verbatim>\<open>application/json\<close>, and the JSON object
  \<^verbatim>\<open>{"type":"error","message":"No API key configured for <provider>. ..."}\<close> as the whole
  body, without the \<^verbatim>\<open>data: \<close> framing of the outbound protocol. The stored key is
  looked up first: when there is one, it is the credential the stream is opened with,
  whatever the environment holds; the environment variable is used only without it.
\<close>

theorem credential_resolution:
  assumes "http_method req = ''POST''"
    and "json_body req = Inr (RequestBody (Some p) (Some q) history)"
    and "q \<noteq> []"
    and "get_decrypted_key env p = Inr r"
  shows "(getUserApiKey r = None \<and> \<not> Boolean (env_get env (envKeyMap p))
            \<longrightarrow> handler env net req = unconfigured p)
       \<and> (\<forall>k. getUserApiKey r = Some k
            \<longrightarrow> handler env net req = streamed net p k (outbound_messages history q))
       \<and> (\<forall>k. getUserApiKey r = None \<and> env_get env (envKeyMap p) = Some k \<and> k \<noteq> []
            \<longrightarrow> handler env net req = streamed net p k (outbound_messages history q))"
proof (intro conjI allI impI)
  assume "getUserApiKey r = None \<and> \<not> Boolean (env_get env (envKeyMap p))"
  with assms show "handler env net req = unconfigured p"
    by (cases "env_get env (envKeyMap p)") (simp_all add: handler_def unconfigured_def)
next
  fix k assume k: "getUserApiKey r = Some k"
  then have "k \<noteq> []" by (rule getUserApiKey_Some)
  with k assms show "handler env net req = streamed net p k (outbound_messages history q)"
    by (simp add: handler_def streamed_def outbound_messages_def split: prod.splits)
next
  fix k assume "getUserApiKey r = None \<and> env_get env (envKeyMap p) = Some k \<and> k \<noteq> []"
  with assms show "handler env net req = streamed net p k (outbound_messages history q)"
    by (simp add: handler_def streamed_def outbound_messages_def split: prod.splits)
qed

lemma no_keys_request:
  "http_method (post chatgpt ''hello'') = ''POST''
   \<and> json_body (post chatgpt ''hello'') = Inr (RequestBody (Some chatgpt) (Some ''hello'') None)
   \<and> ''hello'' \<noteq> []
   \<and> get_decrypted_key no_keys chatgpt = Inr \<lparr>data = None, error = False\<rparr>
   \<and> getUserApiKey \<lparr>data = None, error = False\<rparr> = None
   \<and> \<not> Boolean (env_get no_keys (envKeyMap chatgpt))"
  by (simp add: post_def no_keys_def getUserApiKey_def)

lemma both_keys_request:
  "get_decrypted_key both_keys chatgpt = Inr \<lparr>data = Some ''sk-user'', error = False\<rparr>
   \<and> getUserApiKey \<lparr>data = Some ''sk-user'', error = False\<rparr> = Some ''sk-user''
   \<and> env_get both_keys (envKeyMap chatgpt) = Some ''sk-shared''"
  by (simp add: both_keys_def getUserApiKey_def)

theorem credential_resolution_witness:
  "(http_method (post chatgpt ''hello'') = ''POST''
     \<and> json_body (post chatgpt ''hello'') = Inr (RequestBody (Some chatgpt) (Some ''hello'') None)
     \<and> ''hello'' \<noteq> []
     \<and> get_decrypted_key no_keys chatgpt = Inr \<lparr>data = None, error = False\<rparr>
     \<and> getUserApiKey \<lparr>data = None, error = False\<rparr> = None
     \<and> \<not> Boolean (env_get no_keys (envKeyMap chatgpt)))
   \<and> handler no_keys (serve rate_limited) (post chatgpt ''hello'') = unconfigured chatgpt
   \<and> (get_decrypted_key both_keys chatgpt = Inr \<lparr>data = Some ''sk-user'', error = False\<rparr>
     \<and> getUserApiKey \<lparr>data = Some ''sk-user'', error = False\<rparr> = Some ''sk-user''
     \<and> env_get both_keys (envKeyMap chatgpt) = Some ''sk-shared'')
   \<and> handler both_keys (serve rate_limited) (post chatgpt ''hello'')
       = streamed (serve rate_limited) chatgpt ''sk-user'' (outbound_messages None ''hello'')"
proof (intro conjI)
  show "handler no_keys (serve rate_limited) (post chatgpt ''hello'') = unconfigured chatgpt"
    using credential_resolution
      [of "post chatgpt ''hello''" chatgpt "''hello''" None no_keys "\<lparr>data = None, error = False\<rparr>"
          "serve rate_limited"]
      no_keys_request by blast
  show "handler both_keys (serve rate_limited) (post chatgpt ''hello'')
       = streamed (serve rate_limited) chatgpt ''sk-user'' (outbound_messages None ''hello'')"
    using credential_resolution
      [of "post chatgpt ''hello''" chatgpt "''hello''" None both_keys
          "\<lparr>data = Some ''sk-user'', error = False\<rparr>" "serve rate_limited"]
      no_keys_request both_keys_request by blast
qed (insert no_keys_request both_keys_request, blast+)

text \<open>
  C8 as stated fails in "a single well-formed terminal Error event": the body for an
  unconfigured provider is the bare JSON object, not the record
  \<^verbatim>\<open>data: {...}\<close> that \<^const>\<open>sseError\<close> renders and that the handler's own
  \<^verbatim>\<open>catch\<close> sends; the decode loop of the Transport Client finds no record in it.
\<close>

theorem unconfigured_not_sse_counterexample:
  \<open>snd (handler no_keys (serve rate_limited) (post chatgpt ''hello''))
     = \<lparr>status = 400, contentType = Some ''application/json'',
        sent = Text (''{"type":"error","message":"No API key configured for chatgpt. Add yours in Settings ''
                     @ [CHR 0xE2, CHR 0x86, CHR 0x92] @ '' API Keys."}'')\<rparr>
   \<and> \<not> startsWith (''{"type":"error","message":"No API key configured for chatgpt. Add yours in Settings ''
                     @ [CHR 0xE2, CHR 0x86, CHR 0x92] @ '' API Keys."}'') ''data: ''
   \<and> snd (handler no_keys (serve rate_limited) (post chatgpt ''hello''))
     \<noteq> \<lparr>status = 400, contentType = Some ''application/json'',
        sent = Text (sseError (no_key_message chatgpt))\<rparr>
   \<and> read_loop client_line []
        [''{"type":"error","message":"No API key configured for chatgpt. Add yours in Settings ''
                     @ [CHR 0xE2, CHR 0x86, CHR 0x92] @ '' API Keys."}''] None []
     = Continue []\<close>
  by code_simp

section \<open>Properties of the Transport Client\<close>

text \<open>The state a flow carries: for a generator, the values it yielded.\<close>

fun yielded :: "'s flow \<Rightarrow> 's" where
  "yielded (Continue s) = s"
| "yielded (Return s) = s"
| "yielded (Throw s e) = s"

subsection \<open>Mock mode\<close>

lemma split_ws_concat: "concat (split_ws s) = s"
proof (induction s rule: split_ws.induct)
  case (1 s)
  obtain a r where ar: "take_nonws s = (a, r)" by (cases "take_nonws s")
  then have s: "a @ r = s" using take_nonws_append [of s] by simp
  show ?case
  proof (cases "r = []")
    case True
    with ar s show ?thesis by (subst split_ws.simps) simp
  next
    case False
    obtain w r' where wr: "take_ws r = (w, r')" by (cases "take_ws r")
    then have r: "w @ r' = r" using take_ws_append [of r] by simp
    from 1 [OF ar [symmetric] False wr [symmetric]] have "concat (split_ws r') = r'" .
    with ar wr False s r show ?thesis by (subst split_ws.simps) auto
  qed
qed

lemma mock_index:
  assumes "0 \<le> rnd" "rnd < 1"
  shows "0 \<le> \<lfloor>rnd * real (length (mockResponses p))\<rfloor>
         \<and> nat \<lfloor>rnd * real (length (mockResponses p))\<rfloor> < length (mockResponses p)"
proof -
  have len: "length (mockResponses p) = 2" by (cases p) simp_all
  from assms have "0 \<le> rnd * 2" and "rnd * 2 < 2" by simp_all
  then have "0 \<le> \<lfloor>rnd * 2\<rfloor>" and "\<lfloor>rnd * 2\<rfloor> < 2"
    by (simp_all add: floor_less_iff)
  then have "0 \<le> \<lfloor>rnd * 2\<rfloor> \<and> nat \<lfloor>rnd * 2\<rfloor> < 2"
    by linarith
  then show ?thesis by (simp add: len)
qed

lemma mockStream_text:
  assumes "0 \<le> rnd" "rnd < 1"
  shows "\<exists>ys. mockStream rnd p = Return ys \<and> concat (map toString ys) \<in> set (mockResponses p)"
proof -
  let ?i = "nat \<lfloor>rnd * real (length (mockResponses p))\<rfloor>"
  from mock_index [OF assms, of p]
  have "mockStream rnd p = Return (map JStr (split_ws (mockResponses p ! ?i)))"
    and "?i < length (mockResponses p)"
    by (simp_all add: mockStream_def Let_def)
  moreover have "concat (map toString (map JStr (split_ws (mockResponses p ! ?i)))) = mockResponses p ! ?i"
    by (simp add: comp_def split_ws_concat)
  ultimately show ?thesis by (metis nth_mem)
qed

lemma demo_mode:
  "\<not> (isSupabaseConfigured cfg \<and> Boolean (accessToken opts)) \<Longrightarrow>
   streamAIResponse cfg net rnd p q opts = mockStream rnd p"
  by (cases "accessToken opts") (auto simp: streamAIResponse_def)

text \<open>
  C10. In demo mode (Supabase not configured, or no access token) the generator is
  \<^const>\<open>mockStream\<close> of the provider: for the same provider and the same random draw,
  its chunks and outcome are the same for every question, every history, every signal
  and every network; it returns, and the concatenation of the chunks it yielded is one
  of the canned responses of the provider, character for character.
\<close>

theorem mock_mode_output:
  assumes "\<not> (isSupabaseConfigured cfg \<and> Boolean (accessToken opts))"
    and "\<not> (isSupabaseConfigured cfg' \<and> Boolean (accessToken opts'))"
    and "0 \<le> rnd" and "rnd < 1"
  shows "streamAIResponse cfg net rnd p question opts = streamAIResponse cfg' net' rnd p question' opts'
       \<and> (\<exists>ys. streamAIResponse cfg net rnd p question opts = Return ys
                \<and> concat (map toString ys) \<in> set (mockResponses p))"
  using assms by (simp add: demo_mode mockStream_text)

definition demo_config :: config where
  "demo_config = \<lparr>supabaseUrl = None, supabaseAnonKey = None\<rparr>"

definition token_only :: StreamOptions where
  "token_only = \<lparr>accessToken = Some ''jwt'', conversationHistory = [], signal = NeverRaised\<rparr>"

definition with_history :: StreamOptions where
  "with_history =
     \<lparr>accessToken = None,
      conversationHistory =
        [\<lparr>id = ''m1'', role = user, content = ''an earlier question'', provider = None, timestamp = 0\<rparr>],
      signal = NeverRaised\<rparr>"

lemma demo_inputs:
  "\<not> (isSupabaseConfigured demo_config \<and> Boolean (accessToken token_only))
   \<and> \<not> (isSupabaseConfigured demo_config \<and> Boolean (accessToken with_history))
   \<and> (0::real) \<le> 1 / 2 \<and> (1::real) / 2 < 1"
  by (simp add: isSupabaseConfigured_def demo_config_def)

theorem mock_mode_output_witness:
  "(\<not> (isSupabaseConfigured demo_config \<and> Boolean (accessToken token_only))
    \<and> \<not> (isSupabaseConfigured demo_config \<and> Boolean (accessToken with_history))
    \<and> (0::real) \<le> 1 / 2 \<and> (1::real) / 2 < 1)
   \<and> (streamAIResponse demo_config (serve rate_limited) (1 / 2) gemini ''first question'' token_only
        = streamAIResponse demo_config (serve (FetchFails ''offline'')) (1 / 2) gemini ''another one'' with_history
      \<and> (\<exists>ys. streamAIResponse demo_config (serve rate_limited) (1 / 2) gemini ''first question'' token_only
                  = Return ys
               \<and> concat (map toString ys) \<in> set (mockResponses gemini)))"
proof (rule conjI)
  show "\<not> (isSupabaseConfigured demo_config \<and> Boolean (accessToken token_only))
    \<and> \<not> (isSupabaseConfigured demo_config \<and> Boolean (accessToken with_history))
    \<and> (0::real) \<le> 1 / 2 \<and> (1::real) / 2 < 1"
    by (rule demo_inputs)
  show "streamAIResponse demo_config (serve rate_limited) (1 / 2) gemini ''first question'' token_only
        = streamAIResponse demo_config (serve (FetchFails ''offline'')) (1 / 2) gemini ''another one'' with_history
      \<and> (\<exists>ys. streamAIResponse demo_config (serve rate_limited) (1 / 2) gemini ''first question'' token_only
                  = Return ys
               \<and> concat (map toString ys) \<in> set (mockResponses gemini))"
    by (rule mock_mode_output) (simp_all add: demo_inputs)
qed

subsection \<open>Cancellation\<close>

lemma client_line_mono: "prefix ys (yielded (client_line p ys))"
  by (simp add: client_line_def split: option.splits sum.splits)

lemma for_lines_mono: "prefix ys (yielded (for_lines client_line ls ys))"
proof (induction ls arbitrary: ys)
  case Nil
  show ?case by simp
next
  case (Cons l ls)
  show ?case
  proof (cases "startsWith l ''data: ''")
    case False
    with Cons show ?thesis by simp
  next
    case True
    have p: "prefix ys (yielded (client_line (trim (drop 6 l)) ys))"
      by (rule client_line_mono)
    show ?thesis
    proof (cases "client_line (trim (drop 6 l)) ys")
      case (Continue ys')
      with p have "prefix ys ys'" by simp
      moreover have "prefix ys' (yielded (for_lines client_line ls ys'))" by (rule Cons.IH)
      ultimately show ?thesis using True Continue by (auto intro: prefix_order.trans)
    next
      case (Return ys')
      with p True show ?thesis by simp
    next
      case (Throw ys' e)
      with p True show ?thesis by simp
    qed
  qed
qed

lemma read_loop_mono: "prefix ys (yielded (read_loop client_line buf reads ending ys))"
proof (induction reads arbitrary: buf ys)
  case Nil
  show ?case by (cases ending) simp_all
next
  case (Cons v reads)
  have p: "prefix ys (yielded (for_lines client_line (butlast (split_nl (buf @ v))) ys))"
    by (rule for_lines_mono)
  show ?case
  proof (cases "for_lines client_line (butlast (split_nl (buf @ v))) ys")
    case (Continue ys')
    with p have "prefix ys ys'" by simp
    moreover have "prefix ys' (yielded (read_loop client_line (last (split_nl (buf @ v))) reads ending ys'))"
      by (rule Cons.IH)
    ultimately show ?thesis using Continue by (auto intro: prefix_order.trans)
  next
    case (Return ys')
    with p show ?thesis by simp
  next
    case (Throw ys' e)
    with p show ?thesis by simp
  qed
qed

lemma read_loop_take:
  "prefix (yielded (read_loop client_line buf (take k reads) e ys))
          (yielded (read_loop client_line buf reads e' ys))"
proof (induction reads arbitrary: k buf ys)
  case Nil
  show ?case by (cases e; cases e') simp_all
next
  case (Cons v reads)
  show ?case
  proof (cases k)
    case 0
    have "prefix ys (yielded (read_loop client_line buf (v # reads) e' ys))"
      by (rule read_loop_mono)
    with 0 show ?thesis by (cases e) simp_all
  next
    case (Suc k')
    show ?thesis
      using Cons.IH [where k = k'] Suc
      by (cases "for_lines client_line (butlast (split_nl (buf @ v))) ys") simp_all
  qed
qed

text \<open>Whether the loop ended because the reads ended, not by a return or a throw inside it.\<close>

lemma read_loop_ending:
  "read_loop h buf reads None s = Continue s' \<Longrightarrow> read_loop h buf reads (Some e) s = Throw s' e"
  "read_loop h buf reads None s = Return s' \<Longrightarrow> read_loop h buf reads (Some e) s = Return s'"
  "read_loop h buf reads None s = Throw s' x \<Longrightarrow> read_loop h buf reads (Some e) s = Throw s' x"
  by (induction reads arbitrary: buf s) (auto split: flow.splits)

lemma yielded_ending:
  "yielded (read_loop h buf reads (Some e) s) = yielded (read_loop h buf reads None s)"
  by (cases "read_loop h buf reads None s") (simp_all add: read_loop_ending)

text \<open>
  C6, as amended. In real mode the signal is handed to \<^verbatim>\<open>fetch\<close>. Raised before the
  response, the generator yields nothing and throws. Raised after \<open>k\<close> reads of a
  successful response, the read that is pending or comes next is rejected: the generator
  yields the chunks decoded from those \<open>k\<close> reads and no chunk of a later read, these are
  a prefix of what it yields uncancelled, and unless a line of those reads ended it, it
  ends by throwing. Lines already read are still decoded: the generator itself never
  looks at the signal. In mock mode the generator is not given the signal: its chunks are
  the same whatever the signal does.
\<close>

theorem cancellation_of_the_transport_client:
  assumes "net (proxy_request cfg p question history token) = Upstream st reads ending"
    and "ok st" and "k \<le> length reads"
  shows "realStream cfg net p question history token (RaisedAfter 0) = Throw [] AbortError
       \<and> yielded (realStream cfg net p question history token (RaisedAfter (Suc k)))
           = yielded (response_stream (Upstream st (take k reads) None))
       \<and> prefix (yielded (realStream cfg net p question history token (RaisedAfter (Suc k))))
            (yielded (realStream cfg net p question history token NeverRaised))
       \<and> (\<forall>ys. read_loop client_line [] (take k reads) None [] = Continue ys
            \<longrightarrow> realStream cfg net p question history token (RaisedAfter (Suc k)) = Throw ys AbortError)
       \<and> (\<not> (isSupabaseConfigured cfg' \<and> Boolean (accessToken opts))
            \<longrightarrow> streamAIResponse cfg' net rnd p question (opts\<lparr>signal := s\<rparr>)
                = streamAIResponse cfg' net rnd p question opts)"
proof (intro conjI allI impI)
  show "realStream cfg net p question history token (RaisedAfter 0) = Throw [] AbortError"
    by (simp add: realStream_def response_stream_def)
  have cut: "realStream cfg net p question history token (RaisedAfter (Suc k))
        = response_stream (Upstream st (take k reads) (Some AbortError))"
    using assms by (simp add: realStream_def)
  have full: "realStream cfg net p question history token NeverRaised
        = response_stream (Upstream st reads ending)"
    using assms by (simp add: realStream_def)
  have y: "yielded (response_stream (Upstream st rs e)) = yielded (read_loop client_line [] rs e [])" for rs e
    using \<open>ok st\<close>
    by (cases "read_loop client_line [] rs e []") (simp_all add: response_stream_def del: read_loop.simps)
  show "yielded (realStream cfg net p question history token (RaisedAfter (Suc k)))
           = yielded (response_stream (Upstream st (take k reads) None))"
    by (simp only: cut y yielded_ending)
  show "prefix (yielded (realStream cfg net p question history token (RaisedAfter (Suc k))))
            (yielded (realStream cfg net p question history token NeverRaised))"
    by (simp only: cut full y read_loop_take)
  show "realStream cfg net p question history token (RaisedAfter (Suc k)) = Throw ys AbortError"
    if "read_loop client_line [] (take k reads) None [] = Continue ys" for ys
    using read_loop_ending(1) [OF that, of AbortError] \<open>ok st\<close>
    by (simp add: cut response_stream_def del: read_loop.simps)
  show "streamAIResponse cfg' net rnd p question (opts\<lparr>signal := s\<rparr>)
                = streamAIResponse cfg' net rnd p question opts"
    if "\<not> (isSupabaseConfigured cfg' \<and> Boolean (accessToken opts))"
    using that by (simp add: demo_mode)
qed


definition live_config :: config where
  "live_config = \<lparr>supabaseUrl = Some ''https://project.supabase.co'', supabaseAnonKey = Some ''anon''\<rparr>"

definition three_reads :: "string list" where
  \<open>three_reads =
     [''data: {"type":"chunk","content":"A"}\<newline>\<newline>'',
      ''data: {"type":"chunk","content":"B"}\<newline>\<newline>'',
      ''data: [DONE]\<newline>\<newline>'']\<close>

definition cancelled_before_call :: StreamOptions where
  "cancelled_before_call = \<lparr>accessToken = None, conversationHistory = [], signal = RaisedAfter 0\<rparr>"

lemma three_reads_inputs:
  "serve (Upstream 200 three_reads None) (proxy_request live_config chatgpt ''q'' [] ''jwt'')
     = Upstream 200 three_reads None
   \<and> ok 200 \<and> 1 \<le> length three_reads"
  by (simp add: serve_def ok_def three_reads_def)

lemma first_read: "read_loop client_line [] (take 1 three_reads) None [] = Continue [JStr ''A'']"
  by code_simp

lemma all_reads: "response_stream (Upstream 200 three_reads None) = Return [JStr ''A'', JStr ''B'']"
  by code_simp

theorem cancellation_of_the_transport_client_witness:
  "(serve (Upstream 200 three_reads None) (proxy_request live_config chatgpt ''q'' [] ''jwt'')
       = Upstream 200 three_reads None
     \<and> ok 200 \<and> 1 \<le> length three_reads)
   \<and> realStream live_config (serve (Upstream 200 three_reads None)) chatgpt ''q'' [] ''jwt'' (RaisedAfter 0)
       = Throw [] AbortError
   \<and> realStream live_config (serve (Upstream 200 three_reads None)) chatgpt ''q'' [] ''jwt'' (RaisedAfter (Suc 1))
       = Throw [JStr ''A''] AbortError
   \<and> realStream live_config (serve (Upstream 200 three_reads None)) chatgpt ''q'' [] ''jwt'' NeverRaised
       = Return [JStr ''A'', JStr ''B'']
   \<and> prefix (yielded (realStream live_config (serve (Upstream 200 three_reads None)) chatgpt ''q'' [] ''jwt''
                 (RaisedAfter (Suc 1))))
        (yielded (realStream live_config (serve (Upstream 200 three_reads None)) chatgpt ''q'' [] ''jwt''
                 NeverRaised))
   \<and> streamAIResponse demo_config (serve (Upstream 200 three_reads None)) 0 chatgpt ''q''
         (with_history\<lparr>signal := RaisedAfter 0\<rparr>)
       = streamAIResponse demo_config (serve (Upstream 200 three_reads None)) 0 chatgpt ''q'' with_history"
proof -
  note inputs = three_reads_inputs
  note T = cancellation_of_the_transport_client
    [of "serve (Upstream 200 three_reads None)" live_config chatgpt "''q''" "[]" "''jwt''"
        200 three_reads None 1 demo_config with_history 0 "RaisedAfter 0",
     OF inputs [THEN conjunct1] inputs [THEN conjunct2, THEN conjunct1]
        inputs [THEN conjunct2, THEN conjunct2]]
  have demo: "\<not> (isSupabaseConfigured demo_config \<and> Boolean (accessToken with_history))"
    using demo_inputs by blast
  from T have a: "realStream live_config (serve (Upstream 200 three_reads None)) chatgpt ''q'' [] ''jwt''
      (RaisedAfter 0) = Throw [] AbortError"
    by blast
  from T first_read have b: "realStream live_config (serve (Upstream 200 three_reads None)) chatgpt ''q'' [] ''jwt''
      (RaisedAfter (Suc 1)) = Throw [JStr ''A''] AbortError"
    by blast
  have c: "realStream live_config (serve (Upstream 200 three_reads None)) chatgpt ''q'' [] ''jwt'' NeverRaised
       = Return [JStr ''A'', JStr ''B'']"
    using all_reads by (simp add: realStream_def serve_def)
  from T have d: "prefix (yielded (realStream live_config (serve (Upstream 200 three_reads None)) chatgpt ''q'' [] ''jwt''
                 (RaisedAfter (Suc 1))))
        (yielded (realStream live_config (serve (Upstream 200 three_reads None)) chatgpt ''q'' [] ''jwt''
                 NeverRaised))"
    by blast
  from T demo have e: "streamAIResponse demo_config (serve (Upstream 200 three_reads None)) 0 chatgpt ''q''
         (with_history\<lparr>signal := RaisedAfter 0\<rparr>)
       = streamAIResponse demo_config (serve (Upstream 200 three_reads None)) 0 chatgpt ''q'' with_history"
    by blast
  from inputs a b c d e show ?thesis by (intro conjI) blast+
qed

text \<open>
  C6 as stated fails in mock mode: with the signal raised before the call, the generator
  still yields every token of the canned response.
\<close>

lemma mock_perplexity_0_nonempty: "mock_perplexity_0 \<noteq> []"
  by (simp add: mock_perplexity_0_def)

theorem mock_stream_after_cancel_counterexample:
  "streamAIResponse demo_config (serve rate_limited) 0 perplexity ''q'' cancelled_before_call
     = Return (map JStr (split_ws mock_perplexity_0))
   \<and> concat (split_ws mock_perplexity_0) = mock_perplexity_0
   \<and> mock_perplexity_0 \<noteq> []"
  by (simp add: streamAIResponse_def cancelled_before_call_def mockStream_def split_ws_concat
        mock_perplexity_0_nonempty)

section \<open>The Focused Session: \<^verbatim>\<open>src/components/FocusedConversation.tsx\<close>\<close>

text \<open>
  The state of the component that \<^verbatim>\<open>sendMessage\<close> reads and writes. The abort controller
  of the exchange is described by when its signal is raised, see \<open>cancelled\<close> below.
\<close>

record focused =
  messages :: "Message list"
  input :: string
  streamingId :: "string option"
  isStreaming :: bool

definition failure_notice :: string where
  "failure_notice = ''Sorry, something went wrong. Please try again.''"

text \<open>
  \<^verbatim>\<open>setMessages((prev) => prev.map((m) => (m.id === assistantId ? { ...m, ... } : m)))\<close>
\<close>

definition update_message :: "string \<Rightarrow> (Message \<Rightarrow> Message) \<Rightarrow> focused \<Rightarrow> focused" where
  "update_message assistantId f s =
     s\<lparr>messages := map (\<lambda>m. if id m = assistantId then f m else m) (messages s)\<rparr>"

text \<open>
  The \<^verbatim>\<open>for await\<close> loop over the chunks the generator yields. \<open>n\<close> counts the chunks
  consumed so far and \<open>acc\<close> is the local \<^verbatim>\<open>content\<close>; the signal is aborted once
  \<open>cancelled = Some k\<close> with \<open>k \<le> n\<close>. The result tells whether the loop was left by
  \<^verbatim>\<open>break\<close>.
\<close>

definition is_aborted :: "nat option \<Rightarrow> nat \<Rightarrow> bool" where
  "is_aborted cancelled n = (case cancelled of None \<Rightarrow> False | Some k \<Rightarrow> k \<le> n)"

fun consume ::
  "string \<Rightarrow> nat option \<Rightarrow> nat \<Rightarrow> string \<Rightarrow> string list \<Rightarrow> focused \<Rightarrow> bool \<times> focused" where
  "consume assistantId cancelled n acc [] s = (False, s)"
| "consume assistantId cancelled n acc (chunk # chunks) s =
     (if is_aborted cancelled n then (True, s)
      else consume assistantId cancelled (Suc n) (acc @ chunk) chunks
             (update_message assistantId (\<lambda>m. m\<lparr>content := acc @ chunk\<rparr>) s))"

text \<open>
  \<^verbatim>\<open>sendMessage(text)\<close>, run to its end. \<open>userId\<close> and \<open>assistantId\<close> are the two draws of
  \<^verbatim>\<open>crypto.randomUUID()\<close>, \<open>t0\<close> and \<open>t1\<close> the clock when the turns are created and in
  \<^verbatim>\<open>finally\<close>. The generator yields \<open>chunks\<close> and then returns (\<open>failure = None\<close>) or
  throws. \<open>p\<close> is the provider of the session.
\<close>

definition sendMessage ::
  "Provider \<Rightarrow> string \<Rightarrow> string \<Rightarrow> string \<Rightarrow> nat \<Rightarrow> nat \<Rightarrow> string list \<Rightarrow> string option
     \<Rightarrow> nat option \<Rightarrow> focused \<Rightarrow> focused" where
  "sendMessage p txt userId assistantId t0 t1 chunks failure cancelled s =
     (if trim txt = [] \<or> isStreaming s then s
      else
        (let userMsg = \<lparr>id = userId, role = user, content = trim txt, provider = None, timestamp = t0\<rparr>;
             assistantMsg = \<lparr>id = assistantId, role = assistant, content = [], provider = Some p,
                             timestamp = t0\<rparr>;
             s1 = s\<lparr>messages := messages s @ [userMsg, assistantMsg], input := [],
                    streamingId := Some assistantId, isStreaming := True\<rparr>;
             (broke, s2) = consume assistantId cancelled 0 [] chunks s1;
             at_end = (if broke then True else is_aborted cancelled (length chunks));
             s3 = (if \<not> broke \<and> failure \<noteq> None \<and> \<not> at_end
                   then update_message assistantId (\<lambda>m. m\<lparr>content := failure_notice\<rparr>) s2
                   else s2)
         in if \<not> at_end
            then update_message assistantId (\<lambda>m. m\<lparr>timestamp := t1\<rparr>)
                   (s3\<lparr>streamingId := None, isStreaming := False\<rparr>)
            else s3))"


section \<open>Properties of the Focused Session\<close>

lemma update_message_twice:
  assumes "\<And>m. id (f m) = id m"
  shows "update_message a g (update_message a f s) = update_message a (g \<circ> f) s"
  using assms by (simp add: update_message_def comp_def)

lemma is_aborted_mono: "\<not> is_aborted cancelled (n + k) \<Longrightarrow> \<not> is_aborted cancelled n"
  by (cases cancelled) (simp_all add: is_aborted_def)

lemma consume_to_end:
  "\<not> is_aborted cancelled (n + length chunks) \<Longrightarrow>
   consume a cancelled n acc chunks s
     = (False, if chunks = [] then s
               else update_message a (\<lambda>m. m\<lparr>content := acc @ concat chunks\<rparr>) s)"
proof (induction chunks arbitrary: n acc s)
  case Nil
  show ?case by simp
next
  case (Cons chunk chunks)
  from Cons.prems have now: "\<not> is_aborted cancelled n"
    using is_aborted_mono by blast
  from Cons.prems have later: "\<not> is_aborted cancelled (Suc n + length chunks)"
    by simp
  show ?case
    using now Cons.IH [OF later, of "acc @ chunk"]
    by (simp add: update_message_twice comp_def)
qed

text \<open>
  C9. When the stream of a follow-up throws and the exchange was not cancelled locally
  (the signal is not raised before the failure is handled), then whatever chunks arrived
  before, the turns after \<^verbatim>\<open>sendMessage\<close> are the earlier turns unchanged, the new user
  turn, and the pending assistant turn with the fixed notice as its content (and the
  time of completion as its timestamp). The identifier drawn for the pending turn is
  taken to differ from those of the other turns, as UUIDs do.
\<close>

theorem failed_stream_leaves_notice:
  assumes "trim txt \<noteq> []" and "\<not> isStreaming s"
    and "failure = Some e"
    and "\<not> is_aborted cancelled (length chunks)"
    and "assistantId \<noteq> userId" and "assistantId \<notin> id ` set (messages s)"
  shows "messages (sendMessage p txt userId assistantId t0 t1 chunks failure cancelled s)
         = messages s
           @ [\<lparr>id = userId, role = user, content = trim txt, provider = None, timestamp = t0\<rparr>,
              \<lparr>id = assistantId, role = assistant, content = failure_notice, provider = Some p,
               timestamp = t1\<rparr>]"
proof -
  have c: "\<not> is_aborted cancelled (0 + length chunks)"
    using assms(4) by simp
  show ?thesis
    using assms
    by (auto simp: sendMessage_def Let_def consume_to_end [OF c] update_message_def
          intro!: map_idI)
qed


definition seeded :: focused where
  "seeded =
     \<lparr>messages =
        [\<lparr>id = ''m0'', role = user, content = ''original question'', provider = None, timestamp = 1\<rparr>,
         \<lparr>id = ''m1'', role = assistant, content = ''first answer'', provider = Some chatgpt,
          timestamp = 2\<rparr>],
      input = ''and then?'', streamingId = None, isStreaming = False\<rparr>"

lemma seeded_inputs:
  "trim ''and then?'' \<noteq> [] \<and> \<not> isStreaming seeded
   \<and> \<not> is_aborted None (length [''par'', ''tial''])
   \<and> ''a1'' \<noteq> ''u1'' \<and> ''a1'' \<notin> id ` set (messages seeded)"
proof -
  have "trim ''and then?'' = ''and then?''" by code_simp
  then show ?thesis by (simp add: seeded_def is_aborted_def)
qed

theorem failed_stream_leaves_notice_witness:
  "(trim ''and then?'' \<noteq> [] \<and> \<not> isStreaming seeded
     \<and> \<not> is_aborted None (length [''par'', ''tial''])
     \<and> ''a1'' \<noteq> ''u1'' \<and> ''a1'' \<notin> id ` set (messages seeded))
   \<and> messages (sendMessage chatgpt ''and then?'' ''u1'' ''a1'' 5 9 [''par'', ''tial''] (Some ''boom'') None seeded)
       = messages seeded
         @ [\<lparr>id = ''u1'', role = user, content = trim ''and then?'', provider = None, timestamp = 5\<rparr>,
            \<lparr>id = ''a1'', role = assistant, content = failure_notice, provider = Some chatgpt,
             timestamp = 9\<rparr>]"
proof (rule conjI)
  show "trim ''and then?'' \<noteq> [] \<and> \<not> isStreaming seeded
     \<and> \<not> is_aborted None (length [''par'', ''tial''])
     \<and> ''a1'' \<noteq> ''u1'' \<and> ''a1'' \<notin> id ` set (messages seeded)"
    by (rule seeded_inputs)
  show "messages (sendMessage chatgpt ''and then?'' ''u1'' ''a1'' 5 9 [''par'', ''tial''] (Some ''boom'') None seeded)
       = messages seeded
         @ [\<lparr>id = ''u1'', role = user, content = trim ''and then?'', provider = None, timestamp = 5\<rparr>,
            \<lparr>id = ''a1'', role = assistant, content = failure_notice, provider = Some chatgpt,
             timestamp = 9\<rparr>]"
    by (rule failed_stream_leaves_notice) (insert seeded_inputs, blast+)
qed

section \<open>The Session Orchestrator: \<^verbatim>\<open>src/hooks/useAIStreaming.ts\<close>\<close>

record AIProviderState =
  provider :: Provider
  content :: string
  isStreaming :: bool
  isComplete :: bool
  error :: "string option"
  timestamp :: "nat option"

definition makeInitialState :: "bool \<Rightarrow> Provider \<Rightarrow> AIProviderState" where
  "makeInitialState streaming_now p =
     \<lparr>provider = p, content = [], isStreaming = streaming_now, isComplete = False,
      error = None, timestamp = None\<rparr>"

definition PROVIDERS :: "Provider list" where
  "PROVIDERS = [perplexity, gemini, chatgpt, claude]"

text \<open>
  One call of \<^verbatim>\<open>runProvider\<close> that has been started: its arguments, its local variable
  \<^verbatim>\<open>content\<close>, whether it is one of the four calls a submission awaits, and whether its
  promise has settled. A signal is the identity of the \<^verbatim>\<open>AbortController\<close> it belongs
  to, a number; \<^const>\<open>None\<close> is the signal of a controller of its own that nobody can
  abort (\<^verbatim>\<open>new AbortController().signal\<close>).
\<close>

record attempt =
  target :: Provider
  asked :: string
  scope :: "nat option"
  received :: string
  awaited :: bool
  settled :: bool

text \<open>
  The hook: its three pieces of React state, the ref, the controllers created so far
  (their count, and those that were aborted), and the calls of \<^verbatim>\<open>runProvider\<close>.
\<close>

record hook =
  providerStates :: "Provider \<Rightarrow> AIProviderState"
  currentQuestion :: string
  isQuerying :: bool
  abortRef :: "nat option"
  controllers :: nat
  aborted :: "nat list"
  attempts :: "attempt list"

definition initial :: hook where
  "initial =
     \<lparr>providerStates = makeInitialState False, currentQuestion = [], isQuerying = False,
      abortRef = None, controllers = 0, aborted = [], attempts = []\<rparr>"

definition signal_aborted :: "hook \<Rightarrow> nat option \<Rightarrow> bool" where
  "signal_aborted s sig = (case sig of None \<Rightarrow> False | Some c \<Rightarrow> c \<in> set (aborted s))"

text \<open>\<^verbatim>\<open>abortRef.current?.abort()\<close>\<close>

definition abort_current :: "hook \<Rightarrow> hook" where
  "abort_current s = (case abortRef s of None \<Rightarrow> s | Some c \<Rightarrow> s\<lparr>aborted := c # aborted s\<rparr>)"

text \<open>\<^verbatim>\<open>patchProvider(provider, patch)\<close>; a patch is the update of the fields it names.\<close>

definition patchProvider :: "Provider \<Rightarrow> (AIProviderState \<Rightarrow> AIProviderState) \<Rightarrow> hook \<Rightarrow> hook" where
  "patchProvider p patch s = s\<lparr>providerStates := (providerStates s)(p := patch (providerStates s p))\<rparr>"

text \<open>
  \<^verbatim>\<open>runProvider(provider, question, signal)\<close> up to its first \<^verbatim>\<open>await\<close>: the patch that
  marks the session as streaming, and the call is in flight.
\<close>

definition runProvider :: "bool \<Rightarrow> Provider \<Rightarrow> string \<Rightarrow> nat option \<Rightarrow> hook \<Rightarrow> hook" where
  "runProvider in_batch p question sig s =
     (patchProvider p
        (\<lambda>st. st\<lparr>isStreaming := True, content := [], error := None, isComplete := False\<rparr>) s)
       \<lparr>attempts := attempts s
          @ [\<lparr>target = p, asked = question, scope = sig, received = [], awaited = in_batch,
               settled = False\<rparr>]\<rparr>"

definition submitQuestion :: "string \<Rightarrow> hook \<Rightarrow> hook" where
  "submitQuestion question s =
     (if trim question = [] \<or> isQuerying s then s
      else
        foldl (\<lambda>s' p. runProvider True p question (Some (controllers s)) s')
          ((abort_current s)
             \<lparr>abortRef := Some (controllers s), controllers := Suc (controllers s),
              currentQuestion := question, isQuerying := True,
              providerStates := makeInitialState True\<rparr>)
          PROVIDERS)"

definition retryProvider :: "Provider \<Rightarrow> hook \<Rightarrow> hook" where
  "retryProvider p s =
     (if currentQuestion s = [] then s
      else runProvider False p (currentQuestion s) (abortRef s) s)"

definition resetResponses :: "hook \<Rightarrow> hook" where
  "resetResponses s =
     (abort_current s)
       \<lparr>providerStates := makeInitialState False, currentQuestion := [], isQuerying := False\<rparr>"

text \<open>
  The promise of call \<open>i\<close> settles. When it is the last of the four calls a submission
  awaits, \<^verbatim>\<open>Promise.allSettled\<close> resolves and the submission goes on:
  \<^verbatim>\<open>if (!controller.signal.aborted) setIsQuerying(false)\<close>.
\<close>

definition settle :: "nat \<Rightarrow> hook \<Rightarrow> hook" where
  "settle i s =
     (let a = attempts s ! i;
          s1 = s\<lparr>attempts := (attempts s)[i := a\<lparr>settled := True\<rparr>]\<rparr>
      in if awaited a
            \<and> list_all (\<lambda>b. if awaited b \<and> scope b = scope a then settled b else True) (attempts s1)
            \<and> \<not> signal_aborted s1 (scope a)
         then s1\<lparr>isQuerying := False\<rparr>
         else s1)"

text \<open>
  What the generator of call \<open>i\<close> does next, and what \<^verbatim>\<open>runProvider\<close> does with it: a
  chunk (\<^verbatim>\<open>if (signal.aborted) return; content += chunk; patchProvider(...)\<close>), the end of
  the stream at time \<open>now\<close>, or an error. A call that has settled receives nothing more.
\<close>

definition in_flight :: "nat \<Rightarrow> hook \<Rightarrow> bool" where
  "in_flight i s = (i < length (attempts s) \<and> \<not> settled (attempts s ! i))"

definition on_chunk :: "nat \<Rightarrow> string \<Rightarrow> hook \<Rightarrow> hook" where
  "on_chunk i chunk s =
     (if \<not> in_flight i s then s
      else
        (let a = attempts s ! i in
         if signal_aborted s (scope a) then settle i s
         else
           patchProvider (target a) (\<lambda>st. st\<lparr>content := received a @ chunk\<rparr>)
             (s\<lparr>attempts := (attempts s)[i := a\<lparr>received := received a @ chunk\<rparr>]\<rparr>)))"

definition on_end :: "nat \<Rightarrow> nat \<Rightarrow> hook \<Rightarrow> hook" where
  "on_end i now s =
     (if \<not> in_flight i s then s
      else
        (let a = attempts s ! i in
         if signal_aborted s (scope a) then settle i s
         else
           settle i
             (patchProvider (target a)
                (\<lambda>st. st\<lparr>isStreaming := False, isComplete := True, timestamp := Some now\<rparr>) s)))"

definition on_error :: "nat \<Rightarrow> string \<Rightarrow> hook \<Rightarrow> hook" where
  "on_error i msg s =
     (if \<not> in_flight i s then s
      else
        (let a = attempts s ! i in
         if signal_aborted s (scope a) then settle i s
         else
           settle i
             (patchProvider (target a)
                (\<lambda>st. st\<lparr>isStreaming := False, isComplete := True, error := Some msg\<rparr>) s)))"

text \<open>
  What can happen to the hook: a call of one of its three operations, the cleanup of
  its effect (\<^verbatim>\<open>abortRef.current?.abort()\<close>), or the next step of the stream of a call.
  Each is taken to see the state the previous one left (a render lies between them).
\<close>

datatype event =
    Submit string
  | Retry Provider
  | Reset
  | Cleanup
  | Chunk nat string
  | Ended nat nat
  | Failed nat string

fun step :: "hook \<Rightarrow> event \<Rightarrow> hook" where
  "step s (Submit question) = submitQuestion question s"
| "step s (Retry p) = retryProvider p s"
| "step s Reset = resetResponses s"
| "step s Cleanup = abort_current s"
| "step s (Chunk i chunk) = on_chunk i chunk s"
| "step s (Ended i now) = on_end i now s"
| "step s (Failed i msg) = on_error i msg s"

definition run :: "event list \<Rightarrow> hook" where
  "run evs = foldl step initial evs"

section \<open>Properties of the Session Orchestrator\<close>

text \<open>The arguments of a call, which nothing changes after it is started.\<close>

definition arguments :: "attempt \<Rightarrow> Provider \<times> string \<times> nat option \<times> bool" where
  "arguments a = (target a, asked a, scope a, awaited a)"

lemma map_update_same:
  assumes "\<And>x. f (g x) = f x"
  shows "map f (xs[i := g (xs ! i)]) = map f xs"
proof (cases "i < length xs")
  case True
  then show ?thesis by (simp add: map_update assms list_update_same_conv)
next
  case False
  then have "length xs \<le> i" by simp
  then have "xs[i := g (xs ! i)] = xs" by (rule list_update_beyond)
  then show ?thesis by (rule arg_cong)
qed

lemma settle_fields [simp]:
  "providerStates (settle i s) = providerStates s"
  "currentQuestion (settle i s) = currentQuestion s"
  "abortRef (settle i s) = abortRef s"
  "controllers (settle i s) = controllers s"
  "aborted (settle i s) = aborted s"
  "map arguments (attempts (settle i s)) = map arguments (attempts s)"
  by (simp_all add: settle_def Let_def map_update_same arguments_def)

lemma patchProvider_fields [simp]:
  "currentQuestion (patchProvider p f s) = currentQuestion s"
  "isQuerying (patchProvider p f s) = isQuerying s"
  "abortRef (patchProvider p f s) = abortRef s"
  "controllers (patchProvider p f s) = controllers s"
  "aborted (patchProvider p f s) = aborted s"
  "attempts (patchProvider p f s) = attempts s"
  "q \<noteq> p \<Longrightarrow> providerStates (patchProvider p f s) q = providerStates s q"
  "providerStates (patchProvider p f s) p = f (providerStates s p)"
  by (simp_all add: patchProvider_def)

lemma runProvider_fields [simp]:
  "currentQuestion (runProvider b p q sig s) = currentQuestion s"
  "isQuerying (runProvider b p q sig s) = isQuerying s"
  "abortRef (runProvider b p q sig s) = abortRef s"
  "controllers (runProvider b p q sig s) = controllers s"
  "aborted (runProvider b p q sig s) = aborted s"
  "attempts (runProvider b p q sig s)
     = attempts s @ [\<lparr>target = p, asked = q, scope = sig, received = [], awaited = b, settled = False\<rparr>]"
  "p' \<noteq> p \<Longrightarrow> providerStates (runProvider b p q sig s) p' = providerStates s p'"
  "providerStates (runProvider b p q sig s) p
     = (providerStates s p)\<lparr>isStreaming := True, content := [], error := None, isComplete := False\<rparr>"
  by (simp_all add: runProvider_def)

lemma abort_current_fields [simp]:
  "providerStates (abort_current s) = providerStates s"
  "currentQuestion (abort_current s) = currentQuestion s"
  "isQuerying (abort_current s) = isQuerying s"
  "abortRef (abort_current s) = abortRef s"
  "controllers (abort_current s) = controllers s"
  "attempts (abort_current s) = attempts s"
  "aborted (abort_current s) = (case abortRef s of None \<Rightarrow> aborted s | Some c \<Rightarrow> c # aborted s)"
  by (simp_all add: abort_current_def split: option.splits)

lemma stream_event_fields [simp]:
  "currentQuestion (on_chunk i c s) = currentQuestion s"
  "abortRef (on_chunk i c s) = abortRef s"
  "controllers (on_chunk i c s) = controllers s"
  "aborted (on_chunk i c s) = aborted s"
  "map arguments (attempts (on_chunk i c s)) = map arguments (attempts s)"
  "currentQuestion (on_end i n s) = currentQuestion s"
  "abortRef (on_end i n s) = abortRef s"
  "controllers (on_end i n s) = controllers s"
  "aborted (on_end i n s) = aborted s"
  "map arguments (attempts (on_end i n s)) = map arguments (attempts s)"
  "currentQuestion (on_error i m s) = currentQuestion s"
  "abortRef (on_error i m s) = abortRef s"
  "controllers (on_error i m s) = controllers s"
  "aborted (on_error i m s) = aborted s"
  "map arguments (attempts (on_error i m s)) = map arguments (attempts s)"
  by (simp_all add: on_chunk_def on_end_def on_error_def Let_def map_update_same arguments_def)

text \<open>An accepted submission, field by field.\<close>

lemma submit_accepted:
  assumes "trim q \<noteq> []" and "\<not> isQuerying s"
  shows "currentQuestion (submitQuestion q s) = q"
    and "isQuerying (submitQuestion q s)"
    and "abortRef (submitQuestion q s) = Some (controllers s)"
    and "controllers (submitQuestion q s) = Suc (controllers s)"
    and "aborted (submitQuestion q s) = (case abortRef s of None \<Rightarrow> aborted s | Some c \<Rightarrow> c # aborted s)"
    and "attempts (submitQuestion q s)
         = attempts s
           @ map (\<lambda>p. \<lparr>target = p, asked = q, scope = Some (controllers s), received = [],
                        awaited = True, settled = False\<rparr>) PROVIDERS"
    and "providerStates (submitQuestion q s) = makeInitialState True"
proof -
  show "providerStates (submitQuestion q s) = makeInitialState True"
  proof
    fix p
    show "providerStates (submitQuestion q s) p = makeInitialState True p"
      using assms
      by (cases p) (simp_all add: submitQuestion_def PROVIDERS_def makeInitialState_def)
  qed
qed (use assms in \<open>simp_all add: submitQuestion_def PROVIDERS_def\<close>)

lemma submit_refused: "trim q = [] \<or> isQuerying s \<Longrightarrow> submitQuestion q s = s"
  by (auto simp: submitQuestion_def)

lemma arguments_scope: "map scope xs = map (\<lambda>(t, q, sig, b). sig) (map arguments xs)"
  by (simp add: arguments_def)

text \<open>Every step keeps the calls in flight and their arguments, and aborts no controller back.\<close>

lemma step_arguments: "prefix (map arguments (attempts s)) (map arguments (attempts (step s e)))"
proof (cases e)
  case (Submit q)
  show ?thesis
  proof (cases "trim q = [] \<or> isQuerying s")
    case True
    with Submit show ?thesis by (simp add: submit_refused)
  next
    case False
    with Submit show ?thesis by (simp add: submit_accepted(6))
  qed
next
  case (Retry p)
  then show ?thesis by (simp add: retryProvider_def)
next
  case Reset
  then show ?thesis by (simp add: resetResponses_def)
qed simp_all

lemma step_aborted: "set (aborted s) \<subseteq> set (aborted (step s e))"
proof (cases e)
  case (Submit q)
  show ?thesis
  proof (cases "trim q = [] \<or> isQuerying s")
    case True
    with Submit show ?thesis by (simp add: submit_refused)
  next
    case False
    with Submit show ?thesis by (auto simp: submit_accepted(5) split: option.splits)
  qed
next
  case (Retry p)
  then show ?thesis by (simp add: retryProvider_def)
next
  case Reset
  then show ?thesis by (auto simp: resetResponses_def split: option.splits)
next
  case Cleanup
  then show ?thesis by (auto split: option.splits)
qed simp_all

lemma steps_arguments:
  "prefix (map arguments (attempts s)) (map arguments (attempts (foldl step s evs)))"
proof (induction evs arbitrary: s)
  case Nil
  show ?case by simp
next
  case (Cons e evs)
  from step_arguments [of s e] Cons [of "step s e"] show ?case
    by (auto intro: prefix_order.trans)
qed

lemma steps_aborted: "set (aborted s) \<subseteq> set (aborted (foldl step s evs))"
proof (induction evs arbitrary: s)
  case Nil
  show ?case by simp
next
  case (Cons e evs)
  from step_aborted [of s e] Cons [of "step s e"] show ?case by auto
qed

lemma prefix_map_nth:
  assumes "prefix (map f xs) (map f ys)" and "i < length xs"
  shows "i < length ys \<and> f (ys ! i) = f (xs ! i)"
proof -
  from assms(1) obtain zs where zs: "map f ys = map f xs @ zs"
    by (auto simp: prefix_def)
  then have len: "length ys = length xs + length zs"
    by (metis length_append length_map)
  with assms(2) have i: "i < length ys" by simp
  have "map f ys ! i = map f xs ! i"
    using zs assms(2) by (simp add: nth_append)
  with i assms(2) show ?thesis by simp
qed

lemma steps_attempt:
  assumes "i < length (attempts s)"
  shows "i < length (attempts (foldl step s evs))"
    and "target (attempts (foldl step s evs) ! i) = target (attempts s ! i)"
    and "scope (attempts (foldl step s evs) ! i) = scope (attempts s ! i)"
proof -
  from prefix_map_nth [OF steps_arguments assms, of evs]
  have i: "i < length (attempts (foldl step s evs))"
    and a: "arguments (attempts (foldl step s evs) ! i) = arguments (attempts s ! i)"
    by blast+
  show "i < length (attempts (foldl step s evs))" by (rule i)
  from a show "target (attempts (foldl step s evs) ! i) = target (attempts s ! i)"
    by (simp add: arguments_def)
  from a show "scope (attempts (foldl step s evs) ! i) = scope (attempts s ! i)"
    by (simp add: arguments_def)
qed

text \<open>The stream of call \<open>i\<close> takes a step.\<close>

fun of_attempt :: "nat \<Rightarrow> event \<Rightarrow> bool" where
  "of_attempt i (Chunk j c) = (j = i)"
| "of_attempt i (Ended j n) = (j = i)"
| "of_attempt i (Failed j m) = (j = i)"
| "of_attempt i _ = False"

lemma stream_step_frame:
  assumes "of_attempt i e" and "i < length (attempts s)" and "q \<noteq> target (attempts s ! i)"
  shows "providerStates (step s e) q = providerStates s q"
  using assms
  by (cases e) (simp_all add: on_chunk_def on_end_def on_error_def Let_def)

lemma stream_step_rejected:
  assumes "of_attempt i e" and "i < length (attempts s)"
    and "signal_aborted s (scope (attempts s ! i))"
  shows "providerStates (step s e) = providerStates s"
  using assms
  by (cases e) (simp_all add: on_chunk_def on_end_def on_error_def Let_def)

text \<open>
  What holds of every state the hook reaches: the ref holds the controller created last,
  every call runs under a controller that exists, every earlier controller was aborted,
  and a question is only set once a controller exists.
\<close>

definition consistent :: "hook \<Rightarrow> bool" where
  "consistent s =
     (abortRef s = (if controllers s = 0 then None else Some (controllers s - 1))
      \<and> (\<forall>sig \<in> set (map scope (attempts s)). \<exists>c. sig = Some c \<and> c < controllers s)
      \<and> (\<forall>c. Suc c < controllers s \<longrightarrow> c \<in> set (aborted s))
      \<and> (\<forall>c \<in> set (aborted s). c < controllers s)
      \<and> (currentQuestion s \<noteq> [] \<longrightarrow> controllers s \<noteq> 0))"

lemma consistent_initial: "consistent initial"
  by (simp add: consistent_def initial_def)

lemma stream_scopes:
  "map scope (attempts (on_chunk i c s)) = map scope (attempts s)"
  "map scope (attempts (on_end i n s)) = map scope (attempts s)"
  "map scope (attempts (on_error i m s)) = map scope (attempts s)"
  by (simp_all only: arguments_scope stream_event_fields)

lemma consistent_step: "consistent s \<Longrightarrow> consistent (step s e)"
proof (cases e)
  case (Submit q)
  assume s: "consistent s"
  show ?thesis
  proof (cases "trim q = [] \<or> isQuerying s")
    case True
    with Submit s show ?thesis by (simp add: submit_refused)
  next
    case False
    then have a: "trim q \<noteq> []" "\<not> isQuerying s" by simp_all
    have "\<forall>c. Suc c < Suc (controllers s) \<longrightarrow> c \<in> set (aborted (submitQuestion q s))"
    proof (intro allI impI)
      fix c assume "Suc c < Suc (controllers s)"
      then consider "Suc c < controllers s" | "Suc c = controllers s" by linarith
      then show "c \<in> set (aborted (submitQuestion q s))"
      proof cases
        case 1
        with s show ?thesis
          by (auto simp: consistent_def submit_accepted(5) [OF a] split: option.splits)
      next
        case 2
        with s have "abortRef s = Some c" by (auto simp: consistent_def)
        then show ?thesis by (simp add: submit_accepted(5) [OF a])
      qed
    qed
    moreover have "\<forall>c \<in> set (aborted (submitQuestion q s)). c < Suc (controllers s)"
      using s by (auto simp: consistent_def submit_accepted(5) [OF a] split: option.splits if_splits)
    moreover have "\<forall>sig \<in> set (map scope (attempts (submitQuestion q s))).
        \<exists>c. sig = Some c \<and> c < Suc (controllers s)"
      using s by (auto simp: consistent_def submit_accepted(6) [OF a] PROVIDERS_def less_Suc_eq)
    ultimately show ?thesis
      using Submit by (simp add: consistent_def submit_accepted(1,3,4) [OF a])
  qed
next
  case (Retry p)
  assume s: "consistent s"
  show ?thesis
  proof (cases "currentQuestion s = []")
    case True
    with Retry s show ?thesis by (simp add: retryProvider_def)
  next
    case False
    with s have "abortRef s = Some (controllers s - 1)" "controllers s \<noteq> 0"
      by (auto simp: consistent_def)
    with Retry s False show ?thesis
      by (auto simp: consistent_def retryProvider_def)
  qed
next
  case Reset
  assume "consistent s"
  with Reset show ?thesis
    by (auto simp: consistent_def resetResponses_def split: option.splits if_splits)
next
  case Cleanup
  assume "consistent s"
  with Cleanup show ?thesis
    by (auto simp: consistent_def split: option.splits if_splits)
next
  case (Chunk i c)
  assume "consistent s"
  with Chunk show ?thesis by (simp add: consistent_def stream_scopes)
next
  case (Ended i n)
  assume "consistent s"
  with Ended show ?thesis by (simp add: consistent_def stream_scopes)
next
  case (Failed i m)
  assume "consistent s"
  with Failed show ?thesis by (simp add: consistent_def stream_scopes)
qed

lemma consistent_steps: "consistent s \<Longrightarrow> consistent (foldl step s evs)"
  by (induction evs arbitrary: s) (simp_all add: consistent_step)

lemma consistent_run: "consistent (run evs)"
  by (simp add: run_def consistent_steps consistent_initial)

text \<open>Cancelling the controller in the ref cancels every call started so far.\<close>

lemma abort_current_all:
  assumes "consistent s" and "i < length (attempts s)"
    and "set (aborted (abort_current s)) \<subseteq> set (aborted s')"
  shows "signal_aborted s' (scope (attempts s ! i))"
proof -
  from assms(1,2) obtain c where c: "scope (attempts s ! i) = Some c" "c < controllers s"
    by (fastforce simp: consistent_def)
  then have ref: "abortRef s = Some (controllers s - 1)"
    using assms(1) by (auto simp: consistent_def)
  from c consider "Suc c < controllers s" | "c = controllers s - 1" by linarith
  then have "c \<in> set (aborted (abort_current s))"
  proof cases
    case 1
    with assms(1) ref show ?thesis by (auto simp: consistent_def)
  next
    case 2
    with ref show ?thesis by simp
  qed
  with assms(3) c show ?thesis by (auto simp: signal_aborted_def)
qed

lemma superseded_rejected:
  assumes s: "consistent s" and i: "i < length (attempts s)"
    and s': "set (aborted (abort_current s)) \<subseteq> set (aborted s')"
       "prefix (map arguments (attempts s)) (map arguments (attempts s'))"
    and e: "of_attempt i e"
  shows "providerStates (step (foldl step s' evs) e) = providerStates (foldl step s' evs)"
proof -
  let ?t = "foldl step s' evs"
  from prefix_map_nth [OF s'(2) i]
  have i': "i < length (attempts s')" and "arguments (attempts s' ! i) = arguments (attempts s ! i)"
    by blast+
  then have sc: "scope (attempts s' ! i) = scope (attempts s ! i)"
    by (simp add: arguments_def)
  have "set (aborted (abort_current s)) \<subseteq> set (aborted ?t)"
    using s'(1) steps_aborted [of s' evs] by blast
  from abort_current_all [OF s i this]
  have "signal_aborted ?t (scope (attempts ?t ! i))"
    by (simp add: steps_attempt(3) [OF i'] sc)
  with e steps_attempt(1) [OF i', of evs] show ?thesis
    by (intro stream_step_rejected)
qed

lemma run_snoc: "run (evs @ [e]) = step (run evs) e"
  by (simp add: run_def)

lemma run_append: "run (evs @ evs') = foldl step (run evs) evs'"
  by (simp add: run_def)

text \<open>
  C4, as amended. \<^verbatim>\<open>submit(question)\<close> is refused, and changes nothing, while a
  submission is in flight (\<^verbatim>\<open>isQuerying\<close>) or when the question is blank. Otherwise, in
  every state the hook can reach, it aborts the controller the ref holds and with it
  every call started before, puts a fresh controller that is not aborted in the ref,
  resets all four sessions to streaming with empty text, records the question, and starts
  four calls of \<^verbatim>\<open>runProvider\<close>, one per provider in the order of \<^verbatim>\<open>PROVIDERS\<close>, all
  under the fresh controller.
\<close>

theorem submit_only_when_idle:
  "(trim q = [] \<or> isQuerying (run evs) \<longrightarrow> run (evs @ [Submit q]) = run evs)
   \<and> (trim q \<noteq> [] \<and> \<not> isQuerying (run evs) \<longrightarrow>
        aborted (run (evs @ [Submit q]))
          = (case abortRef (run evs) of None \<Rightarrow> aborted (run evs) | Some c \<Rightarrow> c # aborted (run evs))
      \<and> list_all (signal_aborted (run (evs @ [Submit q]))) (map scope (attempts (run evs)))
      \<and> abortRef (run (evs @ [Submit q])) = Some (controllers (run evs))
      \<and> \<not> signal_aborted (run (evs @ [Submit q])) (Some (controllers (run evs)))
      \<and> providerStates (run (evs @ [Submit q])) = makeInitialState True
      \<and> currentQuestion (run (evs @ [Submit q])) = q
      \<and> isQuerying (run (evs @ [Submit q]))
      \<and> attempts (run (evs @ [Submit q]))
          = attempts (run evs)
            @ map (\<lambda>p. \<lparr>target = p, asked = q, scope = Some (controllers (run evs)), received = [],
                         awaited = True, settled = False\<rparr>) PROVIDERS)"
proof (intro conjI impI)
  assume "trim q = [] \<or> isQuerying (run evs)"
  then show "run (evs @ [Submit q]) = run evs"
    by (simp add: run_snoc submit_refused)
next
  let ?s = "run evs" and ?s' = "run (evs @ [Submit q])"
  assume "trim q \<noteq> [] \<and> \<not> isQuerying ?s"
  then have a: "trim q \<noteq> []" "\<not> isQuerying ?s" by simp_all
  have s': "?s' = submitQuestion q ?s" by (simp add: run_snoc)
  note acc = submit_accepted [OF a]
  show ab: "aborted ?s' = (case abortRef ?s of None \<Rightarrow> aborted ?s | Some c \<Rightarrow> c # aborted ?s)"
    by (simp add: s' acc)
  show "abortRef ?s' = Some (controllers ?s)" by (simp add: s' acc)
  show "providerStates ?s' = makeInitialState True" by (simp add: s' acc)
  show "currentQuestion ?s' = q" by (simp add: s' acc)
  show "isQuerying ?s'" by (simp add: s' acc)
  show "attempts ?s' = attempts ?s
            @ map (\<lambda>p. \<lparr>target = p, asked = q, scope = Some (controllers ?s), received = [],
                         awaited = True, settled = False\<rparr>) PROVIDERS"
    by (simp add: s' acc)
  have c: "consistent ?s" by (rule consistent_run)
  have sub: "set (aborted (abort_current ?s)) \<subseteq> set (aborted ?s')"
    by (simp add: ab)
  have "signal_aborted ?s' sig" if "sig \<in> set (map scope (attempts ?s))" for sig
  proof -
    from that obtain i where "i < length (attempts ?s)" "sig = scope (attempts ?s ! i)"
      by (auto simp: in_set_conv_nth)
    with abort_current_all [OF c _ sub] show ?thesis by simp
  qed
  then show "list_all (signal_aborted ?s') (map scope (attempts ?s))"
    by (simp add: list_all_iff)
  from c have "\<forall>x \<in> set (aborted ?s). x < controllers ?s"
    by (simp add: consistent_def)
  moreover from c have "abortRef ?s = Some x \<Longrightarrow> x < controllers ?s" for x
    by (auto simp: consistent_def split: if_splits)
  ultimately show "\<not> signal_aborted ?s' (Some (controllers ?s))"
    by (auto simp: signal_aborted_def ab split: option.splits)
qed

lemma first_in_flight:
  "isQuerying (run [Submit ''first'']) \<and> trim ''first'' \<noteq> [] \<and> \<not> isQuerying (run [])
   \<and> trim ''second'' \<noteq> []"
  by code_simp

theorem submit_only_when_idle_witness:
  "(isQuerying (run [Submit ''first'']) \<and> trim ''first'' \<noteq> [] \<and> \<not> isQuerying (run [])
      \<and> trim ''second'' \<noteq> [])
   \<and> run ([Submit ''first''] @ [Submit ''second'']) = run [Submit ''first'']
   \<and> abortRef (run ([] @ [Submit ''first''])) = Some (controllers (run []))
   \<and> providerStates (run ([] @ [Submit ''first''])) = makeInitialState True
   \<and> currentQuestion (run ([] @ [Submit ''first''])) = ''first''
   \<and> isQuerying (run ([] @ [Submit ''first'']))"
proof -
  note h = first_in_flight
  have refused: "run ([Submit ''first''] @ [Submit ''second'']) = run [Submit ''first'']"
    using submit_only_when_idle [of "''second''" "[Submit ''first'']"] h by blast
  have accepted:
    "abortRef (run ([] @ [Submit ''first''])) = Some (controllers (run []))
     \<and> providerStates (run ([] @ [Submit ''first''])) = makeInitialState True
     \<and> currentQuestion (run ([] @ [Submit ''first''])) = ''first''
     \<and> isQuerying (run ([] @ [Submit ''first'']))"
    using submit_only_when_idle [of "''first''" "[]"] h by blast
  from h refused accepted show ?thesis by blast
qed

text \<open>
  C4 as stated fails: submitted while the first submission is in flight, a second,
  non-blank question is refused. The question stays the first one, nothing is aborted,
  and the only calls are the four of the first question.
\<close>

theorem submit_in_flight_counterexample:
  "isQuerying (run [Submit ''first'']) \<and> trim ''second'' \<noteq> []
   \<and> currentQuestion (run [Submit ''first'', Submit ''second'']) = ''first''
   \<and> aborted (run [Submit ''first'', Submit ''second'']) = []
   \<and> abortRef (run [Submit ''first'', Submit ''second'']) = Some 0
   \<and> map asked (attempts (run [Submit ''first'', Submit ''second'']))
       = [''first'', ''first'', ''first'', ''first'']"
  by code_simp

text \<open>
  C5, as amended. In every state the hook can reach in which a question is recorded,
  \<^verbatim>\<open>retry(P)\<close> starts exactly one call of \<^verbatim>\<open>runProvider\<close>, for P, with the recorded
  question and under the controller the ref holds; it changes nothing else of the hook
  but the session of P, and whatever happens afterwards, no step of the stream of that
  call changes the session of another provider. Without a recorded question (before the
  first submission, after \<^verbatim>\<open>reset()\<close>) it does nothing.
\<close>

theorem retry_starts_one_session:
  "(currentQuestion (run evs) = [] \<longrightarrow> run (evs @ [Retry p]) = run evs)
   \<and> (currentQuestion (run evs) \<noteq> [] \<longrightarrow>
        attempts (run (evs @ [Retry p]))
          = attempts (run evs)
            @ [\<lparr>target = p, asked = currentQuestion (run evs), scope = abortRef (run evs),
                received = [], awaited = False, settled = False\<rparr>]
      \<and> abortRef (run evs) \<noteq> None
      \<and> currentQuestion (run (evs @ [Retry p])) = currentQuestion (run evs)
      \<and> isQuerying (run (evs @ [Retry p])) = isQuerying (run evs)
      \<and> abortRef (run (evs @ [Retry p])) = abortRef (run evs)
      \<and> aborted (run (evs @ [Retry p])) = aborted (run evs)
      \<and> (\<forall>q. q \<noteq> p \<longrightarrow> providerStates (run (evs @ [Retry p])) q = providerStates (run evs) q)
      \<and> (\<forall>evs' e q. of_attempt (length (attempts (run evs))) e \<and> q \<noteq> p \<longrightarrow>
            providerStates (run (evs @ Retry p # evs' @ [e])) q
              = providerStates (run (evs @ Retry p # evs')) q))"
proof (intro conjI impI allI)
  assume "currentQuestion (run evs) = []"
  then show "run (evs @ [Retry p]) = run evs"
    by (simp add: run_snoc retryProvider_def)
next
  let ?s = "run evs" and ?s' = "run (evs @ [Retry p])"
  assume q: "currentQuestion ?s \<noteq> []"
  then have s': "?s' = runProvider False p (currentQuestion ?s) (abortRef ?s) ?s"
    by (simp add: run_snoc retryProvider_def)
  show att: "attempts ?s' = attempts ?s
            @ [\<lparr>target = p, asked = currentQuestion ?s, scope = abortRef ?s,
                received = [], awaited = False, settled = False\<rparr>]"
    by (simp add: s')
  from consistent_run [of evs] q show "abortRef ?s \<noteq> None"
    by (auto simp: consistent_def)
  show "currentQuestion ?s' = currentQuestion ?s" by (simp add: s')
  show "isQuerying ?s' = isQuerying ?s" by (simp add: s')
  show "abortRef ?s' = abortRef ?s" by (simp add: s')
  show "aborted ?s' = aborted ?s" by (simp add: s')
  show "providerStates ?s' x = providerStates ?s x" if "x \<noteq> p" for x
    using that by (simp add: s')
  show "providerStates (run (evs @ Retry p # evs' @ [e])) x = providerStates (run (evs @ Retry p # evs')) x"
    if h: "of_attempt (length (attempts ?s)) e \<and> x \<noteq> p" for evs' e x
  proof -
    let ?i = "length (attempts ?s)"
    let ?t = "foldl step ?s' evs'"
    have t: "run (evs @ Retry p # evs') = ?t"
      using run_append [of "evs @ [Retry p]" evs'] by simp
    have t': "run (evs @ Retry p # evs' @ [e]) = step ?t e"
      using run_snoc [of "evs @ Retry p # evs'" e] t by simp
    have i: "?i < length (attempts ?s')" by (simp add: att)
    have "target (attempts ?s' ! ?i) = p" by (simp add: att)
    with steps_attempt(2) [OF i, of evs'] h
    have "x \<noteq> target (attempts ?t ! ?i)" by simp
    with steps_attempt(1) [OF i, of evs'] h
    have "providerStates (step ?t e) x = providerStates ?t x"
      by (intro stream_step_frame) simp_all
    then show ?thesis by (simp add: t t')
  qed
qed

lemma retry_inputs:
  "currentQuestion (run [Submit ''q'', Failed 2 ''boom'']) \<noteq> []
   \<and> length (attempts (run [Submit ''q'', Failed 2 ''boom''])) = 4
   \<and> currentQuestion (run [Submit ''q'', Reset]) = []
   \<and> claude \<noteq> chatgpt"
  by code_simp

theorem retry_starts_one_session_witness:
  "(currentQuestion (run [Submit ''q'', Failed 2 ''boom'']) \<noteq> []
     \<and> length (attempts (run [Submit ''q'', Failed 2 ''boom''])) = 4
     \<and> currentQuestion (run [Submit ''q'', Reset]) = []
     \<and> claude \<noteq> chatgpt)
   \<and> run ([Submit ''q'', Reset] @ [Retry chatgpt]) = run [Submit ''q'', Reset]
   \<and> attempts (run ([Submit ''q'', Failed 2 ''boom''] @ [Retry chatgpt]))
       = attempts (run [Submit ''q'', Failed 2 ''boom''])
         @ [\<lparr>target = chatgpt, asked = currentQuestion (run [Submit ''q'', Failed 2 ''boom'']),
             scope = abortRef (run [Submit ''q'', Failed 2 ''boom'']),
             received = [], awaited = False, settled = False\<rparr>]
   \<and> providerStates (run ([Submit ''q'', Failed 2 ''boom''] @ [Retry chatgpt])) claude
       = providerStates (run [Submit ''q'', Failed 2 ''boom'']) claude
   \<and> providerStates (run ([Submit ''q'', Failed 2 ''boom''] @ Retry chatgpt # [] @ [Chunk 4 ''again''])) claude
       = providerStates (run ([Submit ''q'', Failed 2 ''boom''] @ Retry chatgpt # [])) claude"
proof -
  note h = retry_inputs
  have e: "of_attempt (length (attempts (run [Submit ''q'', Failed 2 ''boom'']))) (Chunk 4 ''again'')"
    using h by simp
  have a: "run ([Submit ''q'', Reset] @ [Retry chatgpt]) = run [Submit ''q'', Reset]"
    using retry_starts_one_session [of "[Submit ''q'', Reset]" chatgpt] h by blast
  note T = retry_starts_one_session [of "[Submit ''q'', Failed 2 ''boom'']" chatgpt]
  from T h have b: "attempts (run ([Submit ''q'', Failed 2 ''boom''] @ [Retry chatgpt]))
       = attempts (run [Submit ''q'', Failed 2 ''boom''])
         @ [\<lparr>target = chatgpt, asked = currentQuestion (run [Submit ''q'', Failed 2 ''boom'']),
             scope = abortRef (run [Submit ''q'', Failed 2 ''boom'']),
             received = [], awaited = False, settled = False\<rparr>]"
    by blast
  from T h have c: "providerStates (run ([Submit ''q'', Failed 2 ''boom''] @ [Retry chatgpt])) claude
       = providerStates (run [Submit ''q'', Failed 2 ''boom'']) claude"
    by blast
  from T h e have d:
    "providerStates (run ([Submit ''q'', Failed 2 ''boom''] @ Retry chatgpt # [] @ [Chunk 4 ''again''])) claude
       = providerStates (run ([Submit ''q'', Failed 2 ''boom''] @ Retry chatgpt # [])) claude"
    by blast
  from h a b c d show ?thesis by blast
qed

text \<open>
  C5 as stated fails in its last part. After \<^verbatim>\<open>reset()\<close> has cancelled the batch, the
  question is gone and \<^verbatim>\<open>retry\<close> starts nothing. After the cleanup of the effect has
  cancelled it, \<^verbatim>\<open>retry\<close> starts a call under the cancelled controller: its chunk and its
  end are dropped, and the session stays streaming, with no text, never complete.
\<close>

theorem retry_after_cancellation_counterexample:
  "currentQuestion (run [Submit ''q'', Reset]) = []
   \<and> aborted (run [Submit ''q'', Reset]) = [0]
   \<and> length (attempts (run [Submit ''q'', Reset, Retry chatgpt])) = 4
   \<and> \<not> isStreaming (providerStates (run [Submit ''q'', Reset, Retry chatgpt]) chatgpt)
   \<and> \<not> isComplete (providerStates (run [Submit ''q'', Reset, Retry chatgpt]) chatgpt)
   \<and> aborted (run [Submit ''q'', Cleanup]) = [0]
   \<and> scope (attempts (run [Submit ''q'', Cleanup, Retry chatgpt]) ! 4) = Some 0
   \<and> isStreaming
        (providerStates (run [Submit ''q'', Cleanup, Retry chatgpt, Chunk 4 ''answer'', Ended 4 7]) chatgpt)
   \<and> \<not> isComplete
        (providerStates (run [Submit ''q'', Cleanup, Retry chatgpt, Chunk 4 ''answer'', Ended 4 7]) chatgpt)
   \<and> content
        (providerStates (run [Submit ''q'', Cleanup, Retry chatgpt, Chunk 4 ''answer'', Ended 4 7]) chatgpt)
       = []"
  by code_simp

text \<open>
  C3, as amended. \<^verbatim>\<open>retry(provider)\<close> patches the session of the provider (streaming,
  no text, no error, not complete) and keeps its other fields. The writes of a call are
  rejected once its controller is aborted: after \<^verbatim>\<open>reset()\<close>, after the cleanup of the
  effect and after an accepted \<^verbatim>\<open>submit\<close>, whatever happens next, no chunk, end or error
  of a call started before changes any session.
\<close>

theorem superseded_attempt_writes:
  "(currentQuestion (run evs) \<noteq> [] \<longrightarrow>
      providerStates (run (evs @ [Retry p])) p
        = (providerStates (run evs) p)
            \<lparr>isStreaming := True, content := [], error := None, isComplete := False\<rparr>)
   \<and> (\<forall>i evs' e. i < length (attempts (run evs)) \<and> of_attempt i e
          \<and> (ev = Reset \<or> ev = Cleanup \<or> (ev = Submit q \<and> trim q \<noteq> [] \<and> \<not> isQuerying (run evs)))
        \<longrightarrow> providerStates (run (evs @ ev # evs' @ [e])) = providerStates (run (evs @ ev # evs')))"
proof (intro conjI impI allI)
  assume "currentQuestion (run evs) \<noteq> []"
  then show "providerStates (run (evs @ [Retry p])) p
        = (providerStates (run evs) p)
            \<lparr>isStreaming := True, content := [], error := None, isComplete := False\<rparr>"
    by (simp add: run_snoc retryProvider_def)
next
  fix i evs' e
  let ?s = "run evs" and ?s' = "step (run evs) ev"
  assume h: "i < length (attempts ?s) \<and> of_attempt i e
          \<and> (ev = Reset \<or> ev = Cleanup \<or> (ev = Submit q \<and> trim q \<noteq> [] \<and> \<not> isQuerying ?s))"
  have sub: "set (aborted (abort_current ?s)) \<subseteq> set (aborted ?s')"
    using h by (auto simp: resetResponses_def submit_accepted(5) split: option.splits)
  have pre: "prefix (map arguments (attempts ?s)) (map arguments (attempts ?s'))"
    by (rule step_arguments)
  have t: "run (evs @ ev # evs') = foldl step ?s' evs'"
    using run_append [of "evs @ [ev]" evs'] by (simp add: run_snoc)
  have t': "run (evs @ ev # evs' @ [e]) = step (foldl step ?s' evs') e"
    using run_snoc [of "evs @ ev # evs'" e] t by simp
  from superseded_rejected [OF consistent_run _ sub pre, of i e evs'] h
  show "providerStates (run (evs @ ev # evs' @ [e])) = providerStates (run (evs @ ev # evs'))"
    by (simp add: t t')
qed

lemma superseded_inputs:
  "currentQuestion (run [Submit ''q'', Chunk 2 ''old '']) \<noteq> []
   \<and> 2 < length (attempts (run [Submit ''q'', Chunk 2 ''old '']))
   \<and> of_attempt 2 (Chunk 2 ''late'')"
  by code_simp

theorem superseded_attempt_writes_witness:
  "(currentQuestion (run [Submit ''q'', Chunk 2 ''old '']) \<noteq> []
     \<and> 2 < length (attempts (run [Submit ''q'', Chunk 2 ''old '']))
     \<and> of_attempt 2 (Chunk 2 ''late''))
   \<and> providerStates (run ([Submit ''q'', Chunk 2 ''old ''] @ [Retry chatgpt])) chatgpt
       = (providerStates (run [Submit ''q'', Chunk 2 ''old '']) chatgpt)
           \<lparr>isStreaming := True, content := [], error := None, isComplete := False\<rparr>
   \<and> providerStates (run ([Submit ''q'', Chunk 2 ''old ''] @ Reset # [] @ [Chunk 2 ''late'']))
       = providerStates (run ([Submit ''q'', Chunk 2 ''old ''] @ Reset # []))"
proof -
  note h = superseded_inputs
  note T = superseded_attempt_writes [of "[Submit ''q'', Chunk 2 ''old '']" chatgpt Reset]
  from T h have a: "providerStates (run ([Submit ''q'', Chunk 2 ''old ''] @ [Retry chatgpt])) chatgpt
       = (providerStates (run [Submit ''q'', Chunk 2 ''old '']) chatgpt)
           \<lparr>isStreaming := True, content := [], error := None, isComplete := False\<rparr>"
    by blast
  from T h have b: "providerStates (run ([Submit ''q'', Chunk 2 ''old ''] @ Reset # [] @ [Chunk 2 ''late'']))
       = providerStates (run ([Submit ''q'', Chunk 2 ''old ''] @ Reset # []))"
    by blast
  from h a b show ?thesis by blast
qed

text \<open>
  C3 as stated fails: \<^verbatim>\<open>retry\<close> leaves the superseded call running under the same
  controller. A chunk of the old call that arrives after the retry is written into the
  session, whose text then is the old call's text, not the empty text of the new call.
\<close>

theorem stale_chunk_counterexample:
  "target (attempts (run [Submit ''q'', Chunk 2 ''old '', Retry chatgpt]) ! 2) = chatgpt
   \<and> target (attempts (run [Submit ''q'', Chunk 2 ''old '', Retry chatgpt]) ! 4) = chatgpt
   \<and> received (attempts (run [Submit ''q'', Chunk 2 ''old '', Retry chatgpt]) ! 4) = []
   \<and> content (providerStates (run [Submit ''q'', Chunk 2 ''old '', Retry chatgpt]) chatgpt) = []
   \<and> content (providerStates (run [Submit ''q'', Chunk 2 ''old '', Retry chatgpt, Chunk 2 ''stale'']) chatgpt)
       = ''old stale''"
  by code_simp

end
